theory Spec2Isabelle
  imports Complex_Main "HOL-Library.AList"
begin

section \<open>Python values\<close>

text \<open>
  The values that travel between a caller, a command property and the transport.
  \<open>VNum\<close> is a number (bool, int or float): Python compares them by numeric value
  (\<open>True == 1 == 1.0\<close>), so one constructor holds all three; NaN and the infinities are
  not represented. \<open>VList\<close> is a list, \<open>VTuple\<close> a tuple (a range is the tuple of its
  elements), \<open>VDict\<close> a dict in insertion order, \<open>VObj\<close> any other object, into
  which the model does not look. HOL equality on \<open>val\<close> stands for Python's \<open>==\<close>.
\<close>

datatype val =
    VNone
  | VNum rat
  | VStr string
  | VList "val list"
  | VTuple "val list"
  | VDict "(val \<times> val) list"
  | VObj

datatype error =
    AttributeError string
  | TypeError
  | LookupError
  | KeyError
  | ValueError
  | IndexError
  | TimeoutError
  | RuntimeError string
  | NotImplementedError
  | TransportError string

text \<open>
  An object stored in an attribute or passed as a parameter of a command: a plain
  value or a callable. A callable receives its positional arguments and returns a value
  or raises.
\<close>

datatype pyobj =
    Data val
  | Callable "val list \<Rightarrow> error + val"

fun call :: "pyobj \<Rightarrow> val list \<Rightarrow> error + val" where
  "call (Callable f) args = f args"
| "call (Data v) args = Inl TypeError"

fun as_val :: "pyobj \<Rightarrow> val" where
  "as_val (Data v) = v"
| "as_val (Callable f) = VObj"

fun val_truthy :: "val \<Rightarrow> bool" where
  "val_truthy VNone = False"
| "val_truthy (VNum q) = (q \<noteq> 0)"
| "val_truthy (VStr s) = (s \<noteq> [])"
| "val_truthy (VList xs) = (xs \<noteq> [])"
| "val_truthy (VTuple xs) = (xs \<noteq> [])"
| "val_truthy (VDict kvs) = (kvs \<noteq> [])"
| "val_truthy VObj = True"

fun truthy :: "pyobj \<Rightarrow> bool" where
  "truthy (Data v) = val_truthy v"
| "truthy (Callable f) = True"

fun is_None :: "pyobj \<Rightarrow> bool" where
  "is_None (Data VNone) = True"
| "is_None other = False"

text \<open>
  Two built-ins of Python are taken as given rather than re-implemented: the \<open>%\<close>
  operator (string formatting when its left operand is a string) and \<open>int\<close> applied to
  a string.
\<close>

record builtins =
  percent :: "val \<Rightarrow> val \<Rightarrow> error + val"
  int_of_str :: "string \<Rightarrow> error + int"

text \<open>\<open>int(x)\<close>: a number is truncated towards zero, a string is parsed.\<close>

definition py_int :: "builtins \<Rightarrow> val \<Rightarrow> error + int" where
  "py_int B v =
     (case v of
        VNum q \<Rightarrow> Inr (if 0 \<le> q then \<lfloor>q\<rfloor> else \<lceil>q\<rceil>)
      | VStr s \<Rightarrow> int_of_str B s
      | _ \<Rightarrow> Inl TypeError)"

text \<open>\<open>xs[i]\<close> on a list or tuple: a negative index counts from the end.\<close>

definition py_getitem :: "val list \<Rightarrow> int \<Rightarrow> error + val" where
  "py_getitem xs i =
     (if 0 \<le> i \<and> i < int (length xs) then Inr (xs ! nat i)
      else if i < 0 \<and> - int (length xs) \<le> i then Inr (xs ! nat (int (length xs) + i))
      else Inl IndexError)"

text \<open>\<open>xs.index(v)\<close>: the position of the first element equal to \<open>v\<close>.\<close>

fun py_index_from :: "nat \<Rightarrow> val list \<Rightarrow> val \<Rightarrow> error + val" where
  "py_index_from i [] v = Inl ValueError"
| "py_index_from i (x # xs) v =
     (if x = v then Inr (VNum (of_nat i)) else py_index_from (Suc i) xs v)"

definition py_index :: "val list \<Rightarrow> val \<Rightarrow> error + val" where
  "py_index xs v = py_index_from 0 xs v"

text \<open>\<open>d[k]\<close> on a dict: lists and dicts are unhashable keys.\<close>

fun hashable :: "val \<Rightarrow> bool" where
  "hashable (VList xs) = False"
| "hashable (VDict kvs) = False"
| "hashable (VTuple xs) = list_all hashable xs"
| "hashable other = True"

definition dict_getitem :: "(val \<times> val) list \<Rightarrow> val \<Rightarrow> error + val" where
  "dict_getitem kvs k =
     (if \<not> hashable k then Inl TypeError
      else case map_of kvs k of Some v \<Rightarrow> Inr v | None \<Rightarrow> Inl KeyError)"

text \<open>
  \<open>str.strip()\<close> and \<open>str.startswith\<close>. A \<open>char\<close> is a code point below 256; the
  whitespace that \<open>strip\<close> removes there is what \<open>str.isspace\<close> accepts: U+0009 to
  U+000D, U+001C to U+001F, the space, U+0085 and U+00A0.
\<close>

definition is_space :: "char \<Rightarrow> bool" where
  "is_space c = (of_char c \<in> {9, 10, 11, 12, 13, 28, 29, 30, 31, 32, 133, 160 :: nat})"

definition strip :: "string \<Rightarrow> string" where
  "strip s = rev (dropWhile is_space (rev (dropWhile is_space s)))"

definition startswith :: "string \<Rightarrow> string \<Rightarrow> bool" where
  "startswith s p = (take (length p) s = p)"

section \<open>The transport\<close>

text \<open>
  The adapter is outside the repository's core; the session only calls its \<open>ask\<close>,
  \<open>write\<close>, \<open>read\<close>, \<open>values\<close> and \<open>binary_values\<close>. It is modelled as a
  deterministic device: the outcome of an operation is a function of everything sent so
  far (\<open>trace\<close>, newest first, the operation itself at the head). An outcome is a
  failure raised by the adapter or a reply (text for \<open>ask\<close> and \<open>read\<close>, a sequence
  for \<open>values\<close> and \<open>binary_values\<close>), and the time the operation took. \<open>clock\<close>
  is the time in milliseconds that \<open>time()\<close> reads.
\<close>

datatype io =
    Write val
  | Ask val
  | Read
  | Values val "(string \<times> val) list"
  | BinaryValues val val val

record reply =
  fault :: "error option"
  took :: nat
  reply_text :: string
  reply_seq :: "val list"

record adapter =
  trace :: "io list"
  clock :: nat
  device :: "io list \<Rightarrow> reply"

definition perform :: "io \<Rightarrow> adapter \<Rightarrow> reply \<times> adapter" where
  "perform ev a =
     (let t = ev # trace a; r = device a t
      in (r, a\<lparr>trace := t, clock := clock a + took r\<rparr>))"

definition adapter_text :: "io \<Rightarrow> adapter \<Rightarrow> (error + string) \<times> adapter" where
  "adapter_text ev a =
     (case perform ev a of (r, a') \<Rightarrow>
        (case fault r of Some e \<Rightarrow> (Inl e, a') | None \<Rightarrow> (Inr (reply_text r), a')))"

definition adapter_seq :: "io \<Rightarrow> adapter \<Rightarrow> (error + val list) \<times> adapter" where
  "adapter_seq ev a =
     (case perform ev a of (r, a') \<Rightarrow>
        (case fault r of Some e \<Rightarrow> (Inl e, a') | None \<Rightarrow> (Inr (reply_seq r), a')))"

definition adapter_write :: "val \<Rightarrow> adapter \<Rightarrow> (error + unit) \<times> adapter" where
  "adapter_write cmd a =
     (case perform (Write cmd) a of (r, a') \<Rightarrow>
        (case fault r of Some e \<Rightarrow> (Inl e, a') | None \<Rightarrow> (Inr (), a')))"

definition sleep :: "nat \<Rightarrow> adapter \<Rightarrow> adapter" where
  "sleep ms a = a\<lparr>clock := clock a + ms\<rparr>"

section \<open>Command specifications and the session\<close>

text \<open>
  What \<open>Instrument.control\<close> closes over: the defaults of the parameters of its
  \<open>fget\<close> and \<open>fset\<close>, the keyword arguments passed on to \<open>values\<close>, and whether
  the property is a \<open>DynamicProperty\<close> (\<open>dynamic=True\<close>) or a plain \<open>property\<close>.
\<close>

record command =
  get_command :: pyobj
  set_command :: pyobj
  validator :: pyobj
  values_p :: pyobj
  map_values :: pyobj
  get_process :: pyobj
  set_process :: pyobj
  command_process :: pyobj
  dynamic :: bool
  kwargs :: "(string \<times> val) list"

text \<open>
  The defaults of \<open>control\<close>: \<open>lambda v: v\<close> for the three processors and
  \<open>lambda v, vs: v\<close> for the validator. \<open>measurement\<close> calls \<open>control\<close> with
  \<open>set_command=None\<close> and \<open>setting\<close> with \<open>get_command=None\<close>; what they do not pass
  keeps its default.
\<close>

definition identity1 :: pyobj where
  "identity1 = Callable (\<lambda>args. case args of [v] \<Rightarrow> Inr v | _ \<Rightarrow> Inl TypeError)"

definition first_of_two :: pyobj where
  "first_of_two = Callable (\<lambda>args. case args of [v, vs] \<Rightarrow> Inr v | _ \<Rightarrow> Inl TypeError)"

definition control ::
  "pyobj \<Rightarrow> pyobj \<Rightarrow> pyobj \<Rightarrow> pyobj \<Rightarrow> pyobj \<Rightarrow> pyobj \<Rightarrow> pyobj \<Rightarrow> pyobj \<Rightarrow> bool
     \<Rightarrow> (string \<times> val) list \<Rightarrow> command" where
  "control get_cmd set_cmd vali vals mapv get_proc set_proc cmd_proc dyn kw =
     \<lparr>get_command = get_cmd, set_command = set_cmd, validator = vali, values_p = vals,
      map_values = mapv, get_process = get_proc, set_process = set_proc,
      command_process = cmd_proc, dynamic = dyn, kwargs = kw\<rparr>"

definition measurement ::
  "pyobj \<Rightarrow> pyobj \<Rightarrow> pyobj \<Rightarrow> pyobj \<Rightarrow> pyobj \<Rightarrow> bool \<Rightarrow> (string \<times> val) list \<Rightarrow> command" where
  "measurement get_cmd vals mapv get_proc cmd_proc dyn kw =
     control get_cmd (Data VNone) first_of_two vals mapv get_proc identity1 cmd_proc dyn kw"

definition setting ::
  "pyobj \<Rightarrow> pyobj \<Rightarrow> pyobj \<Rightarrow> pyobj \<Rightarrow> pyobj \<Rightarrow> bool \<Rightarrow> (string \<times> val) list \<Rightarrow> command" where
  "setting set_cmd vali vals mapv set_proc dyn kw =
     control (Data VNone) set_cmd vali vals mapv identity1 set_proc identity1 dyn kw"

text \<open>An entry of a class or instance \<open>__dict__\<close>: an object, or a command property.\<close>

datatype attr =
    Obj pyobj
  | Prop command

fun as_obj :: "attr \<Rightarrow> pyobj" where
  "as_obj (Obj p) = p"
| "as_obj (Prop c) = Data VObj"

fun is_DynamicProperty :: "attr \<Rightarrow> bool" where
  "is_DynamicProperty (Prop c) = dynamic c"
| "is_DynamicProperty (Obj p) = False"

text \<open>
  The instance. The attributes that \<open>__init__\<close> sets are fields; \<open>locked\<close> is the
  state of \<open>_lock\<close>; \<open>special_names\<close> is \<open>None\<close> as long as the attribute
  \<open>_special_names\<close> does not exist; \<open>idict\<close> holds every other entry of the
  instance \<open>__dict__\<close> (the reserved slots among them), in insertion order; \<open>mro\<close>
  holds the \<open>__dict__\<close> of each class of \<open>type(self).__mro__\<close>, the most derived
  class first; \<open>id_starts_with\<close> is the abstract property a subclass supplies.
\<close>

record session =
  name :: string
  SCPI :: bool
  adapter :: adapter
  locked :: bool
  id_starts_with :: string
  communication_success :: bool
  isShutdown :: bool
  special_names :: "string list option"
  idict :: "(string \<times> attr) list"
  mro :: "(string \<times> attr) list list"

type_synonym 'a res = "(error + 'a) \<times> session"

subsection \<open>Reserved names\<close>

definition fget_params_list :: "string list" where
  "fget_params_list =
     [''get_command'', ''values'', ''map_values'', ''get_process'', ''command_process'']"

definition fset_params_list :: "string list" where
  "fset_params_list =
     [''set_command'', ''validator'', ''values'', ''map_values'', ''set_process'',
      ''command_process'']"

definition reserved_prefix :: string where
  "reserved_prefix = ''___''"

text \<open>
  \<open>tuple(set(_fget_params_list + _fset_params_list))\<close>: the eight distinct names. The
  order of a Python set is arbitrary; the code only tests membership in the names built
  from it.
\<close>

definition dynamic_params :: "string list" where
  "dynamic_params = remdups (fget_params_list @ fset_params_list)"

text \<open>The first loop of \<open>_setup_special_names\<close>, over one \<open>__dict__\<close>.\<close>

fun special_names_of :: "(string \<times> attr) list \<Rightarrow> string list" where
  "special_names_of [] = []"
| "special_names_of ((attr_name, a) # rest) =
     (if is_DynamicProperty a
      then map (\<lambda>key. attr_name @ ''_'' @ key) dynamic_params @ special_names_of rest
      else special_names_of rest)"

text \<open>
  The second loop, over the \<open>__dict__\<close> of a class: every entry whose name is special
  is copied into the instance under the reserved prefix. \<open>_special_names\<close> is not yet
  an attribute of the instance at that point, so \<open>setattr\<close> stores under the name it is
  given. A later copy overwrites an earlier one.
\<close>

fun copy_class_level ::
  "string list \<Rightarrow> (string \<times> attr) list \<Rightarrow> (string \<times> attr) list \<Rightarrow> (string \<times> attr) list" where
  "copy_class_level sp [] d = d"
| "copy_class_level sp ((k, v) # rest) d =
     (if k \<in> set sp
      then copy_class_level sp rest (AList.update (reserved_prefix @ k) v d)
      else copy_class_level sp rest d)"

text \<open>
  The same loop over the instance's own \<open>__dict__\<close>, which the copy itself modifies:
  when the copy adds a key, the iteration fails at its next step with
  \<open>RuntimeError: dictionary changed size during iteration\<close>; when the reserved slot
  exists already, its value is replaced and the iteration goes on. \<open>ks\<close> are the keys
  still to visit.
\<close>

fun copy_instance_level ::
  "string list \<Rightarrow> string list \<Rightarrow> (string \<times> attr) list \<Rightarrow> error + (string \<times> attr) list" where
  "copy_instance_level sp [] d = Inr d"
| "copy_instance_level sp (k # ks) d =
     (if k \<in> set sp
      then (case (map_of d k, map_of d (reserved_prefix @ k)) of
              (Some v, Some old) \<Rightarrow>
                copy_instance_level sp ks (AList.update (reserved_prefix @ k) v d)
            | _ \<Rightarrow> Inl (RuntimeError ''dictionary changed size during iteration''))
      else copy_instance_level sp ks d)"

definition setup_special_names :: "session \<Rightarrow> (error + string list) \<times> session" where
  "setup_special_names s =
     (let sp = concat (map special_names_of (idict s # mro s))
      in case copy_instance_level sp (map fst (idict s)) (idict s) of
           Inl e \<Rightarrow> (Inl e, s)
         | Inr d \<Rightarrow> (Inr sp, s\<lparr>idict := foldl (\<lambda>d cls. copy_class_level sp cls d) d (mro s)\<rparr>))"

text \<open>The last statement of \<open>__init__\<close>: \<open>self._special_names = self._setup_special_names()\<close>.\<close>

definition init_special_names :: "session \<Rightarrow> (error + unit) \<times> session" where
  "init_special_names s =
     (case setup_special_names s of
        (Inl e, s') \<Rightarrow> (Inl e, s')
      | (Inr sp, s') \<Rightarrow> (Inr (), s'\<lparr>special_names := Some sp\<rparr>))"

subsection \<open>Attribute lookup\<close>

text \<open>The first entry for a name along the classes of the \<open>mro\<close>.\<close>

fun class_lookup :: "(string \<times> attr) list list \<Rightarrow> string \<Rightarrow> attr option" where
  "class_lookup [] n = None"
| "class_lookup (cls # rest) n =
     (case map_of cls n of Some a \<Rightarrow> Some a | None \<Rightarrow> class_lookup rest n)"

text \<open>The instance \<open>__dict__\<close>: the fields of the record and the entries of \<open>idict\<close>.\<close>

definition of_bool_val :: "bool \<Rightarrow> attr" where
  "of_bool_val b = Obj (Data (VNum (if b then 1 else 0)))"

definition instance_lookup :: "session \<Rightarrow> string \<Rightarrow> attr option" where
  "instance_lookup s n =
     (if n = ''name'' then Some (Obj (Data (VStr (name s))))
      else if n = ''SCPI'' then Some (of_bool_val (SCPI s))
      else if n = ''adapter'' \<or> n = ''_lock'' then Some (Obj (Data VObj))
      else if n = ''communication_success'' then Some (of_bool_val (communication_success s))
      else if n = ''isShutdown'' then Some (of_bool_val (isShutdown s))
      else if n = ''_special_names''
        then map_option (\<lambda>ns. Obj (Data (VList (map VStr ns)))) (special_names s)
      else map_of (idict s) n)"

text \<open>
  \<open>object.__getattribute__\<close>: a property found in a class comes first (it is a data
  descriptor), then the instance \<open>__dict__\<close>, then any other class attribute. The
  result \<open>Prop c\<close> stands for the property's getter being run by the caller.
\<close>

definition object_getattribute :: "session \<Rightarrow> string \<Rightarrow> error + attr" where
  "object_getattribute s n =
     (if n = ''__dict__'' then Inr (Obj (Data VObj))
      else case class_lookup (mro s) n of
             Some (Prop c) \<Rightarrow> Inr (Prop c)
           | found \<Rightarrow>
               (case instance_lookup s n of
                  Some a \<Rightarrow> Inr a
                | None \<Rightarrow> (case found of Some a \<Rightarrow> Inr a | None \<Rightarrow> Inl (AttributeError n))))"

text \<open>\<open>Instrument.__getattribute__\<close>.\<close>

definition getattribute :: "session \<Rightarrow> string \<Rightarrow> error + attr" where
  "getattribute s n =
     (if n = ''_special_names'' \<or> n = ''__dict__'' then object_getattribute s n
      else case special_names s of
             Some sp \<Rightarrow>
               if n \<in> set sp
               then Inl (AttributeError (n @ '' is a reserved variable name and it cannot be read''))
               else object_getattribute s n
           | None \<Rightarrow> object_getattribute s n)"

text \<open>\<open>Instrument.__setattr__\<close>: the name under which the value is stored.\<close>

definition setattr_name :: "session \<Rightarrow> string \<Rightarrow> string" where
  "setattr_name s n =
     (case special_names s of
        Some sp \<Rightarrow> if n \<in> set sp then reserved_prefix @ n else n
      | None \<Rightarrow> n)"

text \<open>
  The attributes and methods that the code of the class itself reads or assigns on
  \<open>self\<close>. None of them can be a special name (lemma \<open>used_names_not_special\<close>
  below), so the guards of \<open>__getattribute__\<close> and \<open>__setattr__\<close> never fire for
  them: the methods below read and update the fields of the record directly.
\<close>

definition names_used_by_the_class :: "string list" where
  "names_used_by_the_class =
     [''_special_names'', ''__dict__'', ''__class__'', ''name'', ''SCPI'', ''adapter'', ''_lock'',
      ''communication_success'', ''isShutdown'', ''id_starts_with'', ''connect'',
      ''_setup_special_names'', ''_fget_params_list'', ''_fset_params_list'',
      ''_Instrument__reserved_prefix'', ''complete'', ''status'', ''options'', ''get_id'',
      ''_wait_until_ready'', ''ask'', ''ask_no_lock'', ''write'', ''read'', ''values'',
      ''check_errors'', ''_flush_errors'', ''clear'', ''reset'', ''shutdown'']"

section \<open>The session's transactions\<close>

text \<open>
  A method returns its result or the exception it raised, and the session as it has
  left it: effects on the transport persist when a method raises. A method that may
  never return (a drain of an error queue that never empties, an acquisition of a lock
  that is held) has an \<open>option\<close> around its result, \<open>None\<close> for not returning.
\<close>

definition bind_res ::
  "'a res option \<Rightarrow> ('a \<Rightarrow> session \<Rightarrow> 'b res option) \<Rightarrow> 'b res option" where
  "bind_res m f =
     (case m of
        None \<Rightarrow> None
      | Some (Inl e, s) \<Rightarrow> Some (Inl e, s)
      | Some (Inr x, s) \<Rightarrow> f x s)"

definition ask_no_lock :: "val \<Rightarrow> session \<Rightarrow> string res" where
  "ask_no_lock cmd s =
     (case adapter_text (Ask cmd) (adapter s) of (r, a) \<Rightarrow> (r, s\<lparr>adapter := a\<rparr>))"

text \<open>The property \<open>complete\<close>: \<open>Some True\<close>, \<open>Some False\<close>, or \<open>None\<close> for Python's \<open>None\<close>.\<close>

definition complete :: "session \<Rightarrow> bool option res" where
  "complete s =
     (if SCPI s
      then (case ask_no_lock (VStr ''*OPC?'') s of
              (Inl e, s') \<Rightarrow> (Inl e, s')
            | (Inr r, s') \<Rightarrow>
                (let ready = strip r
                 in if ready = ''1'' then (Inr (Some True), s')
                    else if ready = ''0'' then (Inr (Some False), s')
                    else (Inr None, s')))
      else (Inl NotImplementedError, s))"

text \<open>A completion query does not take the clock back.\<close>

lemma clock_complete:
  "complete s = (r, s') \<Longrightarrow> clock (adapter s) \<le> clock (adapter s')"
  by (auto simp: complete_def ask_no_lock_def adapter_text_def perform_def Let_def
      split: if_splits prod.splits sum.splits option.splits)

text \<open>
  The loop of \<open>_wait_until_ready\<close>; \<open>deadline\<close> is the source's \<open>end\<close>, the time
  on the clock after which the loop gives up. \<open>not self.complete\<close> holds for \<open>False\<close>
  and for \<open>None\<close>. \<open>sleep(0.1)\<close> lets 100 ms pass. The loop terminates because the
  clock never goes back during a query and advances with every sleep.
\<close>

function wait_loop :: "nat \<Rightarrow> session \<Rightarrow> unit res" where
  "wait_loop deadline s =
     (case complete s of
        (Inl e, s') \<Rightarrow> (Inl e, s')
      | (Inr c, s') \<Rightarrow>
          if c = Some True then (Inr (), s')
          else if deadline < clock (adapter s') then (Inl TimeoutError, s')
          else wait_loop deadline (s'\<lparr>adapter := sleep 100 (adapter s')\<rparr>))"
  by pat_completeness auto
termination wait_loop
proof (relation "measure (\<lambda>(deadline, s). deadline + 100 - clock (adapter s))", goal_cases)
  case 1
  show ?case by simp
next
  case (2 deadline s x1 s' c)
  then have "clock (adapter s) \<le> clock (adapter s')"
    using clock_complete [of s "Inr c" s'] by simp
  with 2 show ?case by (simp add: sleep_def)
qed

declare wait_loop.simps [simp del]

text \<open>\<open>_wait_until_ready(timeout)\<close>, the timeout in milliseconds (the default is 10 s).\<close>

definition wait_until_ready :: "nat \<Rightarrow> session \<Rightarrow> unit res" where
  "wait_until_ready timeout s = wait_loop (clock (adapter s) + timeout) s"

definition default_timeout :: nat where
  "default_timeout = 10000"

text \<open>The \<open>while True\<close> loop of \<open>_flush_errors\<close>.\<close>

partial_function (option) flush_loop :: "string list \<Rightarrow> session \<Rightarrow> string list res option" where
  "flush_loop errors s =
     (case ask_no_lock (VStr ''SYST:ERR?'') s of
        (Inl e, s') \<Rightarrow> Some (Inl e, s')
      | (Inr current_err, s') \<Rightarrow>
          if \<not> startswith current_err ''+0''
          then flush_loop (errors @ [current_err]) s'
          else Some (Inr errors, s'))"

declare flush_loop.simps [code]

definition flush_errors :: "session \<Rightarrow> string list res option" where
  "flush_errors s =
     (if SCPI s
      then bind_res (Some (wait_until_ready default_timeout s)) (\<lambda>_ s'. flush_loop [] s')
      else Some (Inl NotImplementedError, s))"

definition error_message :: "string \<Rightarrow> string" where
  "error_message e =
     ''Error read from error queue. First error read from the error queue is: '' @ e
       @ [CHR 0x0A] @ ''See logs for more details''"

definition check_errors :: "session \<Rightarrow> unit res option" where
  "check_errors s =
     bind_res (flush_errors s)
       (\<lambda>errors s'. if errors \<noteq> [] then Some (Inl (RuntimeError (error_message (hd errors))), s')
                     else Some (Inr (), s'))"

text \<open>
  \<open>with self._lock:\<close> the lock is acquired, blocking while it is held; it is released
  when the block is left, by a return or by an exception.
\<close>

definition with_lock :: "(session \<Rightarrow> 'a res option) \<Rightarrow> session \<Rightarrow> 'a res option" where
  "with_lock body s =
     (if locked s then None
      else map_option (\<lambda>(r, s'). (r, s'\<lparr>locked := False\<rparr>)) (body (s\<lparr>locked := True\<rparr>)))"

definition lift_text :: "io \<Rightarrow> session \<Rightarrow> string res option" where
  "lift_text ev s = (case adapter_text ev (adapter s) of (r, a) \<Rightarrow> Some (r, s\<lparr>adapter := a\<rparr>))"

definition lift_seq :: "io \<Rightarrow> session \<Rightarrow> val list res option" where
  "lift_seq ev s = (case adapter_seq ev (adapter s) of (r, a) \<Rightarrow> Some (r, s\<lparr>adapter := a\<rparr>))"

definition lift_write :: "val \<Rightarrow> session \<Rightarrow> unit res option" where
  "lift_write cmd s = (case adapter_write cmd (adapter s) of (r, a) \<Rightarrow> Some (r, s\<lparr>adapter := a\<rparr>))"

definition ask :: "val \<Rightarrow> bool \<Rightarrow> session \<Rightarrow> string res option" where
  "ask cmd check_for_errors =
     with_lock (\<lambda>s.
       bind_res (if check_for_errors then Some (wait_until_ready default_timeout s)
                 else Some (Inr (), s))
         (\<lambda>_ s1. bind_res (lift_text (Ask cmd) s1)
           (\<lambda>response s2.
              if check_for_errors
              then bind_res (check_errors s2) (\<lambda>_ s3. Some (Inr response, s3))
              else Some (Inr response, s2))))"

definition write_m :: "val \<Rightarrow> session \<Rightarrow> unit res option" where
  "write_m cmd =
     with_lock (\<lambda>s.
       bind_res (Some (wait_until_ready default_timeout s))
         (\<lambda>_ s1. bind_res (lift_write cmd s1) (\<lambda>_ s2. check_errors s2)))"

definition read :: "session \<Rightarrow> string res option" where
  "read =
     with_lock (\<lambda>s.
       bind_res (Some (wait_until_ready default_timeout s))
         (\<lambda>_ s1. bind_res (lift_text Read s1)
           (\<lambda>response s2. bind_res (check_errors s2) (\<lambda>_ s3. Some (Inr response, s3)))))"

definition values_m :: "val \<Rightarrow> (string \<times> val) list \<Rightarrow> session \<Rightarrow> val list res option" where
  "values_m cmd kw =
     with_lock (\<lambda>s.
       bind_res (Some (wait_until_ready default_timeout s))
         (\<lambda>_ s1. bind_res (lift_seq (Values cmd kw) s1)
           (\<lambda>response s2. bind_res (check_errors s2) (\<lambda>_ s3. Some (Inr response, s3)))))"

definition binary_values :: "val \<Rightarrow> val \<Rightarrow> val \<Rightarrow> session \<Rightarrow> val list res option" where
  "binary_values cmd header_bytes dtype =
     with_lock (\<lambda>s.
       bind_res (Some (wait_until_ready default_timeout s))
         (\<lambda>_ s1. bind_res (lift_seq (BinaryValues cmd header_bytes dtype) s1)
           (\<lambda>response s2. bind_res (check_errors s2) (\<lambda>_ s3. Some (Inr response, s3)))))"

text \<open>
  \<open>get_id(self, check_errs=True)\<close>, and a call of it with keyword arguments: a keyword
  that is not a parameter of the method raises \<open>TypeError\<close> before the body runs.
\<close>

definition get_id :: "bool \<Rightarrow> session \<Rightarrow> string res option" where
  "get_id check_errs s =
     (if SCPI s
      then bind_res (ask (VStr ''*IDN?'') check_errs s) (\<lambda>r s'. Some (Inr (strip r), s'))
      else Some (Inl NotImplementedError, s))"

definition get_id_params :: "string list" where
  "get_id_params = [''check_errs'']"

definition call_get_id :: "(string \<times> bool) list \<Rightarrow> session \<Rightarrow> string res option" where
  "call_get_id kws s =
     (if list_all (\<lambda>kw. fst kw \<in> set get_id_params) kws
      then get_id (case map_of kws ''check_errs'' of Some b \<Rightarrow> b | None \<Rightarrow> True) s
      else Some (Inl TypeError, s))"

text \<open>The property \<open>status\<close>, which calls \<open>self.get_id(check_for_errors=False)\<close>.\<close>

definition status :: "session \<Rightarrow> string res option" where
  "status s =
     (if \<not> communication_success s
      then bind_res (call_get_id [(''check_for_errors'', False)] s)
             (\<lambda>id s'. if startswith id (id_starts_with s')
                        then Some (Inr ''ok: ON'', s'\<lparr>communication_success := True\<rparr>)
                        else Some (Inr ''warning: Cannot communicate with device'', s'))
      else if locked s then Some (Inr ''ok: busy'', s)
      else Some (Inr ''ok: ON'', s))"

definition options :: "session \<Rightarrow> string res option" where
  "options s =
     (if SCPI s
      then bind_res (ask (VStr ''*OPT?'') True s) (\<lambda>r s'. Some (Inr (strip r), s'))
      else Some (Inl NotImplementedError, s))"

definition clear :: "session \<Rightarrow> unit res option" where
  "clear s = (if SCPI s then write_m (VStr ''*CLS'') s else Some (Inl NotImplementedError, s))"

definition reset :: "session \<Rightarrow> unit res option" where
  "reset s = (if SCPI s then write_m (VStr ''*RST'') s else Some (Inl NotImplementedError, s))"

text \<open>\<open>shutdown\<close>, which \<open>__exit__\<close> calls whatever the block did.\<close>

definition shutdown :: "session \<Rightarrow> session" where
  "shutdown s = s\<lparr>isShutdown := True\<rparr>"

definition exit_block :: "session \<Rightarrow> session" where
  "exit_block s = shutdown s"

section \<open>Command properties\<close>

text \<open>
  The translation of a decoded value when \<open>map_values\<close> is set, on the read side
  (\<open>fget\<close>) and on the write side (\<open>fset\<close>).
\<close>

definition map_decode :: "builtins \<Rightarrow> pyobj \<Rightarrow> val \<Rightarrow> error + val" where
  "map_decode B vals v =
     (case vals of
        Data (VList xs) \<Rightarrow> (case py_int B v of Inl e \<Rightarrow> Inl e | Inr i \<Rightarrow> py_getitem xs i)
      | Data (VTuple xs) \<Rightarrow> (case py_int B v of Inl e \<Rightarrow> Inl e | Inr i \<Rightarrow> py_getitem xs i)
      | Data (VDict kvs) \<Rightarrow>
          (case find (\<lambda>kv. snd kv = v) kvs of Some kv \<Rightarrow> Inr (fst kv) | None \<Rightarrow> Inl KeyError)
      | _ \<Rightarrow> Inl ValueError)"

definition map_encode :: "pyobj \<Rightarrow> val \<Rightarrow> error + val" where
  "map_encode vals v =
     (case vals of
        Data (VList xs) \<Rightarrow> py_index xs v
      | Data (VTuple xs) \<Rightarrow> py_index xs v
      | Data (VDict kvs) \<Rightarrow> dict_getitem kvs v
      | _ \<Rightarrow> Inl ValueError)"

definition fget ::
  "builtins \<Rightarrow> pyobj \<Rightarrow> pyobj \<Rightarrow> pyobj \<Rightarrow> pyobj \<Rightarrow> pyobj \<Rightarrow> (string \<times> val) list
     \<Rightarrow> session \<Rightarrow> val res option" where
  "fget B get_cmd vals mapv get_proc cmd_proc kw s =
     (if is_None get_cmd then Some (Inl LookupError, s)
      else case call cmd_proc [as_val get_cmd] of
             Inl e \<Rightarrow> Some (Inl e, s)
           | Inr cmd \<Rightarrow>
               bind_res (values_m cmd kw s)
                 (\<lambda>toks s'.
                    case toks of
                      [tok] \<Rightarrow>
                        (case call get_proc [tok] of
                           Inl e \<Rightarrow> Some (Inl e, s')
                         | Inr v \<Rightarrow>
                             if \<not> truthy mapv then Some (Inr v, s')
                             else Some (map_decode B vals v, s'))
                    | _ \<Rightarrow> Some (call get_proc [VList toks], s')))"

definition fset ::
  "builtins \<Rightarrow> pyobj \<Rightarrow> pyobj \<Rightarrow> pyobj \<Rightarrow> pyobj \<Rightarrow> pyobj \<Rightarrow> pyobj \<Rightarrow> val
     \<Rightarrow> session \<Rightarrow> unit res option" where
  "fset B set_cmd vali vals mapv set_proc cmd_proc v s =
     (if is_None set_cmd then Some (Inl LookupError, s)
      else case call vali [v, as_val vals] of
             Inl e \<Rightarrow> Some (Inl e, s)
           | Inr v1 \<Rightarrow>
       (case call set_proc [v1] of
             Inl e \<Rightarrow> Some (Inl e, s)
           | Inr v2 \<Rightarrow>
       (case (if \<not> truthy mapv then Inr v2 else map_encode vals v2) of
             Inl e \<Rightarrow> Some (Inl e, s)
           | Inr v3 \<Rightarrow>
       (case call cmd_proc [as_val set_cmd] of
             Inl e \<Rightarrow> Some (Inl e, s)
           | Inr template \<Rightarrow>
       (case percent B template v3 of
             Inl e \<Rightarrow> Some (Inl e, s)
           | Inr cmd \<Rightarrow> write_m cmd s)))))"

text \<open>
  \<open>DynamicProperty.__get__\<close> and \<open>__set__\<close> collect, for each configurable parameter,
  the attribute \<open>prefix + name + "_" + parameter\<close> of the instance when \<open>hasattr\<close>
  finds one, and pass what they found as keyword arguments; a parameter that is not
  passed keeps its default. \<open>pname\<close> is the name under which the property is bound in
  its class (\<open>__set_name__\<close>). A plain \<open>property\<close> passes no keyword argument.

  A reserved slot that is itself bound to a property in a class is outside the model:
  \<open>hasattr\<close> would run that property's getter, whereas the slot counts as holding an
  opaque object here.
\<close>

fun build_kwargs :: "session \<Rightarrow> string \<Rightarrow> string list \<Rightarrow> (string \<times> pyobj) list" where
  "build_kwargs s pname [] = []"
| "build_kwargs s pname (a # rest) =
     (case getattribute s (reserved_prefix @ pname @ ''_'' @ a) of
        Inr found \<Rightarrow> (a, as_obj found) # build_kwargs s pname rest
      | Inl e \<Rightarrow> build_kwargs s pname rest)"

definition param :: "(string \<times> pyobj) list \<Rightarrow> string \<Rightarrow> pyobj \<Rightarrow> pyobj" where
  "param kw a dflt = (case map_of kw a of Some v \<Rightarrow> v | None \<Rightarrow> dflt)"

definition overrides ::
  "session \<Rightarrow> command \<Rightarrow> string \<Rightarrow> string list \<Rightarrow> (string \<times> pyobj) list" where
  "overrides s c pname params = (if dynamic c then build_kwargs s pname params else [])"

definition property_get :: "builtins \<Rightarrow> command \<Rightarrow> string \<Rightarrow> session \<Rightarrow> val res option" where
  "property_get B c pname s =
     (let kw = overrides s c pname fget_params_list
      in fget B (param kw ''get_command'' (get_command c))
           (param kw ''values'' (values_p c))
           (param kw ''map_values'' (map_values c))
           (param kw ''get_process'' (get_process c))
           (param kw ''command_process'' (command_process c))
           (kwargs c) s)"

definition property_set ::
  "builtins \<Rightarrow> command \<Rightarrow> string \<Rightarrow> val \<Rightarrow> session \<Rightarrow> unit res option" where
  "property_set B c pname v s =
     (let kw = overrides s c pname fset_params_list
      in fset B (param kw ''set_command'' (set_command c))
           (param kw ''validator'' (validator c))
           (param kw ''values'' (values_p c))
           (param kw ''map_values'' (map_values c))
           (param kw ''set_process'' (set_process c))
           (param kw ''command_process'' (command_process c))
           v s)"

subsection \<open>Reading and assigning an attribute of the instance\<close>

text \<open>
  \<open>inst.n\<close> and \<open>inst.n = v\<close>, for a name \<open>n\<close> other than the fields of the record. A
  property bound to the name in a class takes the access; otherwise the instance
  \<open>__dict__\<close> is read or written.
\<close>

definition descriptor_of :: "session \<Rightarrow> string \<Rightarrow> command option" where
  "descriptor_of s n =
     (case class_lookup (mro s) n of Some (Prop c) \<Rightarrow> Some c | _ \<Rightarrow> None)"


definition setattr :: "builtins \<Rightarrow> string \<Rightarrow> pyobj \<Rightarrow> session \<Rightarrow> unit res option" where
  "setattr B n v s =
     (let n' = setattr_name s n
      in case descriptor_of s n' of
           Some c \<Rightarrow> property_set B c n' (as_val v) s
         | None \<Rightarrow> Some (Inr (), s\<lparr>idict := AList.update n' (Obj v) (idict s)\<rparr>))"

section \<open>Construction\<close>

text \<open>
  \<open>__init__\<close> with an adapter object: the error queue is flushed, the identification
  is compared with the prefix of the class, and the reserved names are set up.
  \<open>pre\<close> is what the instance \<open>__dict__\<close> holds when \<open>__init__\<close> starts.
\<close>

definition init ::
  "adapter \<Rightarrow> string \<Rightarrow> bool \<Rightarrow> string \<Rightarrow> (string \<times> attr) list list \<Rightarrow> (string \<times> attr) list
     \<Rightarrow> unit res option" where
  "init adp nm includeSCPI id_prefix classes pre =
     (let s0 = \<lparr>name = nm, SCPI = includeSCPI, adapter = adp, locked = False,
                id_starts_with = id_prefix, communication_success = False,
                isShutdown = False, special_names = None, idict = pre, mro = classes\<rparr>
      in bind_res (flush_errors s0)
           (\<lambda>_ s1. bind_res (get_id True s1)
              (\<lambda>idn s2.
                 Some (init_special_names
                   (s2\<lparr>communication_success := startswith idn (id_starts_with s2),
                       isShutdown := False\<rparr>)))))"

text \<open>
  Two notions used to state what the loops do. \<open>error_reply s i\<close> is what the device
  answers to the \<open>i+1\<close>-th of consecutive error queries sent from \<open>s\<close>.
  \<open>after_polls k s\<close> is the session after \<open>k\<close> rounds of the readiness loop from
  \<open>s\<close>: a completion query, then the sleep.
\<close>

definition error_reply :: "session \<Rightarrow> nat \<Rightarrow> reply" where
  "error_reply s i =
     device (adapter s) (replicate (Suc i) (Ask (VStr ''SYST:ERR?'')) @ trace (adapter s))"

fun after_polls :: "nat \<Rightarrow> session \<Rightarrow> session" where
  "after_polls 0 s = s"
| "after_polls (Suc k) s =
     after_polls k ((snd (complete s))\<lparr>adapter := sleep 100 (adapter (snd (complete s)))\<rparr>)"

section \<open>Runs of operations\<close>

text \<open>
  The operations that the class offers on an instance, and the session that a
  sequence of them leaves; \<open>None\<close> when one of them does not return. A failed
  operation leaves the session it was at when it raised. Plain assignment to an
  attribute by a caller is not among them.
\<close>

datatype operation =
    Op_ask val bool
  | Op_write val
  | Op_read
  | Op_values val "(string \<times> val) list"
  | Op_binary_values val val val
  | Op_check_errors
  | Op_status
  | Op_get_id bool
  | Op_options
  | Op_clear
  | Op_reset
  | Op_get command string
  | Op_set command string val
  | Op_shutdown

fun run_op :: "builtins \<Rightarrow> operation \<Rightarrow> session \<Rightarrow> session option" where
  "run_op B (Op_ask c chk) s = map_option snd (ask c chk s)"
| "run_op B (Op_write c) s = map_option snd (write_m c s)"
| "run_op B Op_read s = map_option snd (read s)"
| "run_op B (Op_values c kw) s = map_option snd (values_m c kw s)"
| "run_op B (Op_binary_values c hb dt) s = map_option snd (binary_values c hb dt s)"
| "run_op B Op_check_errors s = map_option snd (check_errors s)"
| "run_op B Op_status s = map_option snd (status s)"
| "run_op B (Op_get_id chk) s = map_option snd (get_id chk s)"
| "run_op B Op_options s = map_option snd (options s)"
| "run_op B Op_clear s = map_option snd (clear s)"
| "run_op B Op_reset s = map_option snd (reset s)"
| "run_op B (Op_get c pname) s = map_option snd (property_get B c pname s)"
| "run_op B (Op_set c pname v) s = map_option snd (property_set B c pname v s)"
| "run_op B Op_shutdown s = Some (shutdown s)"

fun run_ops :: "builtins \<Rightarrow> operation list \<Rightarrow> session \<Rightarrow> session option" where
  "run_ops B [] s = Some s"
| "run_ops B (x # xs) s = (case run_op B x s of None \<Rightarrow> None | Some s' \<Rightarrow> run_ops B xs s')"

text \<open>An operation keeps the shutdown flag when every return leaves it as it was.\<close>

definition keeps_flag :: "(session \<Rightarrow> 'a res option) \<Rightarrow> bool" where
  "keeps_flag f = (\<forall>s r s'. f s = Some (r, s') \<longrightarrow> isShutdown s' = isShutdown s)"

section \<open>Example sessions\<close>

text \<open>
  A device that is always ready, has an empty error queue, identifies itself as
  \<open>ACME,42\<close> and answers every \<open>values\<close> query with the single token \<open>1\<close>; a class
  with an overridable write-only command \<open>volt\<close> and an overridable command
  \<open>mode\<close>; a healthy session of that class.
\<close>

definition bench_device :: "io list \<Rightarrow> reply" where
  "bench_device t =
     (case t of
        Ask (VStr c) # _ \<Rightarrow>
          \<lparr>fault = None, took = 1,
           reply_text = (if c = ''*OPC?'' then ''1''
                         else if c = ''SYST:ERR?'' then ''+0,No error''
                         else if c = ''*IDN?'' then ''ACME,42'' else []),
           reply_seq = []\<rparr>
      | Values c kw # _ \<Rightarrow> \<lparr>fault = None, took = 1, reply_text = [], reply_seq = [VNum 1]\<rparr>
      | _ \<Rightarrow> \<lparr>fault = None, took = 1, reply_text = [], reply_seq = []\<rparr>)"

definition bench_adapter :: adapter where
  "bench_adapter = \<lparr>trace = [], clock = 0, device = bench_device\<rparr>"

definition volt_setting :: command where
  "volt_setting =
     setting (Data (VStr ''V %d'')) first_of_two (Data (VTuple [])) (Data (VNum 0)) identity1
       True []"

text \<open>
  A validator in the manner of \<open>strict_discrete_set\<close>: the value must be an element of
  the sequence, or a key of the dict. A read/write command \<open>mode\<close> whose values are a
  mapping from names to wire codes.
\<close>

definition member_validator :: pyobj where
  "member_validator =
     Callable (\<lambda>args. case args of
        [v, VList xs] \<Rightarrow> if v \<in> set xs then Inr v else Inl ValueError
      | [v, VTuple xs] \<Rightarrow> if v \<in> set xs then Inr v else Inl ValueError
      | [v, VDict kvs] \<Rightarrow> if v \<in> fst ` set kvs then Inr v else Inl ValueError
      | _ \<Rightarrow> Inl TypeError)"

definition mode_values :: pyobj where
  "mode_values = Data (VDict [(VStr ''LOW'', VNum 0), (VStr ''HIGH'', VNum 1)])"

definition mode_control :: command where
  "mode_control =
     control (Data (VStr ''M?'')) (Data (VStr ''M %d'')) member_validator mode_values
       (Data (VNum 1)) identity1 identity1 identity1 True []"

definition bench_classes :: "(string \<times> attr) list list" where
  "bench_classes = [[(''volt'', Prop volt_setting), (''mode'', Prop mode_control)]]"

definition bench :: session where
  "bench =
     \<lparr>name = ''bench'', SCPI = True, adapter = bench_adapter, locked = False,
      id_starts_with = ''ACME'', communication_success = True, isShutdown = False,
      special_names = Some (concat (map special_names_of bench_classes)),
      idict = [], mro = bench_classes\<rparr>"

definition plain_builtins :: builtins where
  "plain_builtins =
     \<lparr>percent = (\<lambda>t v. Inr (VTuple [t, v])), int_of_str = (\<lambda>s. Inl ValueError)\<rparr>"

text \<open>
  A hierarchy of three classes: the base class declares the overridable command
  \<open>freq\<close> with the values \<open>(1, 20)\<close>; its subclass sets \<open>freq_values = (1, 10)\<close>; the
  subclass of that one, the class of the instance, sets \<open>freq_values = (1, 5)\<close>.
  \<open>leaf_session\<close> is the instance that \<open>__init__\<close> returns on the bench device.
\<close>

definition freq_control :: command where
  "freq_control =
     control (Data (VStr ''F?'')) (Data (VStr ''F %d'')) first_of_two
       (Data (VTuple [VNum 1, VNum 20])) (Data (VNum 0)) identity1 identity1 identity1 True []"

definition leaf_classes :: "(string \<times> attr) list list" where
  "leaf_classes =
     [[(''freq_values'', Obj (Data (VTuple [VNum 1, VNum 5])))],
      [(''freq_values'', Obj (Data (VTuple [VNum 1, VNum 10])))],
      [(''freq'', Prop freq_control)]]"

definition leaf_session :: session where
  "leaf_session =
     \<lparr>name = ''leaf'', SCPI = True,
      adapter = bench_adapter\<lparr>trace := [Ask (VStr ''SYST:ERR?''), Ask (VStr ''*OPC?''),
        Ask (VStr ''*IDN?''), Ask (VStr ''*OPC?''), Ask (VStr ''SYST:ERR?''),
        Ask (VStr ''*OPC?'')], clock := 6\<rparr>,
      locked = False, id_starts_with = ''ACME'', communication_success = True,
      isShutdown = False,
      special_names = Some (map (\<lambda>key. ''freq_'' @ key) dynamic_params),
      idict = [(''___freq_values'', Obj (Data (VTuple [VNum 1, VNum 10])))],
      mro = leaf_classes\<rparr>"

text \<open>
  A device with two errors queued; a device that reports completion from the third
  completion query on; a device that never does.
\<close>

definition faulty_device :: "io list \<Rightarrow> reply" where
  "faulty_device t =
     (case t of
        Ask (VStr c) # rest \<Rightarrow>
          \<lparr>fault = None, took = 1,
           reply_text =
             (if c = ''SYST:ERR?''
              then (case length (filter (\<lambda>x. x = Ask (VStr ''SYST:ERR?'')) rest) of
                      0 \<Rightarrow> ''-113,Undefined header''
                    | Suc 0 \<Rightarrow> ''-222,Data out of range''
                    | _ \<Rightarrow> ''+0,No error'')
              else ''1''),
           reply_seq = []\<rparr>
      | _ \<Rightarrow> \<lparr>fault = None, took = 1, reply_text = [], reply_seq = []\<rparr>)"

definition faulty :: session where
  "faulty = bench\<lparr>adapter := \<lparr>trace = [], clock = 0, device = faulty_device\<rparr>\<rparr>"

definition slow_device :: "io list \<Rightarrow> reply" where
  "slow_device t =
     (case t of
        Ask (VStr c) # rest \<Rightarrow>
          \<lparr>fault = None, took = 1,
           reply_text =
             (if c = ''*OPC?''
              then (if length (filter (\<lambda>x. x = Ask (VStr ''*OPC?'')) rest) < 2 then ''0''
                    else CHR 0xA0 # ''1'' @ [CHR 0x85, CHR 0x0A])
              else ''+0,No error''),
           reply_seq = []\<rparr>
      | _ \<Rightarrow> \<lparr>fault = None, took = 1, reply_text = [], reply_seq = []\<rparr>)"

definition slow :: session where
  "slow = bench\<lparr>adapter := \<lparr>trace = [], clock = 0, device = slow_device\<rparr>\<rparr>"

definition stuck :: session where
  "stuck = bench\<lparr>adapter := \<lparr>trace = [], clock = 0,
             device = (\<lambda>t. \<lparr>fault = None, took = 1, reply_text = ''0'', reply_seq = []\<rparr>)\<rparr>\<rparr>"

text \<open>
  The instance that \<open>__init__\<close> returns on the bench device for a class that expects
  another identification: construction succeeds, with \<open>communication_success\<close> false.
\<close>

definition degraded :: session where
  "degraded =
     \<lparr>name = ''bench'', SCPI = True,
      adapter = bench_adapter\<lparr>trace := [Ask (VStr ''SYST:ERR?''), Ask (VStr ''*OPC?''),
        Ask (VStr ''*IDN?''), Ask (VStr ''*OPC?''), Ask (VStr ''SYST:ERR?''),
        Ask (VStr ''*OPC?'')], clock := 6\<rparr>,
      locked = False, id_starts_with = ''OTHER'', communication_success = False,
      isShutdown = False,
      special_names = Some (concat (map special_names_of bench_classes)),
      idict = [], mro = bench_classes\<rparr>"

section \<open>Properties\<close>

subsection \<open>Evaluation and resolution lemmas\<close>

lemma strip_1: "strip ''1'' = ''1''"
  by (simp add: strip_def is_space_def)

lemmas bench_defs = bench_def bench_classes_def bench_adapter_def bench_device_def
  volt_setting_def mode_control_def mode_values_def member_validator_def plain_builtins_def setting_def measurement_def control_def identity1_def
  first_of_two_def

lemmas attribute_defs = getattribute_def object_getattribute_def instance_lookup_def
  reserved_prefix_def dynamic_params_def fget_params_list_def fset_params_list_def
  setattr_name_def descriptor_of_def overrides_def param_def

lemmas transaction_defs = values_m_def write_m_def ask_def read_def binary_values_def
  with_lock_def bind_res_def wait_until_ready_def default_timeout_def complete_def
  ask_no_lock_def adapter_text_def adapter_seq_def adapter_write_def perform_def
  lift_seq_def lift_text_def lift_write_def check_errors_def flush_errors_def
  flush_loop.simps wait_loop.simps startswith_def strip_1 Let_def

text \<open>What \<open>__get__\<close> and \<open>__set__\<close> pass for a parameter: the slot of the instance, if any.\<close>

lemma map_of_build_kwargs:
  "map_of (build_kwargs s pname ps) a =
     (if a \<in> set ps
      then (case getattribute s (reserved_prefix @ pname @ ''_'' @ a) of
              Inr found \<Rightarrow> Some (as_obj found) | Inl e \<Rightarrow> None)
      else None)"
  by (induction ps) (auto split: sum.splits)

lemma param_default:
  "dynamic c \<longrightarrow> getattribute s (reserved_prefix @ pname @ ''_'' @ a) = Inl e
     \<Longrightarrow> param (overrides s c pname ps) a dflt = dflt"
  by (simp add: param_def overrides_def map_of_build_kwargs)

lemma get_unsupported:
  "is_None (param (overrides s c pname fget_params_list) ''get_command'' (get_command c))
     \<Longrightarrow> property_get B c pname s = Some (Inl LookupError, s)"
  by (simp add: property_get_def fget_def Let_def)

lemma set_unsupported:
  "is_None (param (overrides s c pname fset_params_list) ''set_command'' (set_command c))
     \<Longrightarrow> property_set B c pname v s = Some (Inl LookupError, s)"
  by (simp add: property_set_def fset_def Let_def)

subsection \<open>Unsupported directions\<close>

text \<open>
  Claim C8, as the code has it. A read fails with \<open>LookupError\<close> and leaves the session
  (so also the transport) untouched whenever the read template in force is \<open>None\<close>, and
  a write likewise for the write template. The template in force is the declared one
  for a plain property, and for a \<open>DynamicProperty\<close> when the instance holds no slot
  \<open>___<name>_get_command\<close> (\<open>___<name>_set_command\<close>); so every command of the
  \<open>setting\<close> factory that is not dynamic refuses reads, and every command of the
  \<open>measurement\<close> factory that is not dynamic refuses writes.
\<close>

theorem unsupported_direction:
  "(is_None (param (overrides s c pname fget_params_list) ''get_command'' (get_command c))
      \<longrightarrow> property_get B c pname s = Some (Inl LookupError, s))
   \<and> (is_None (param (overrides s c pname fset_params_list) ''set_command'' (set_command c))
      \<longrightarrow> property_set B c pname v s = Some (Inl LookupError, s))
   \<and> (is_None (get_command c)
       \<and> (dynamic c \<longrightarrow> getattribute s (reserved_prefix @ pname @ ''_get_command'') = Inl e)
      \<longrightarrow> property_get B c pname s = Some (Inl LookupError, s))
   \<and> (is_None (set_command c)
       \<and> (dynamic c \<longrightarrow> getattribute s (reserved_prefix @ pname @ ''_set_command'') = Inl e')
      \<longrightarrow> property_set B c pname v s = Some (Inl LookupError, s))
   \<and> property_get B (setting set_cmd vali vals mapv set_proc False kw) pname s
       = Some (Inl LookupError, s)
   \<and> property_set B (measurement get_cmd vals' mapv' get_proc cmd_proc False kw') pname v s
       = Some (Inl LookupError, s)"
proof -
  have g: "is_None (get_command c)
       \<and> (dynamic c \<longrightarrow> getattribute s (reserved_prefix @ pname @ ''_get_command'') = Inl e)
      \<longrightarrow> property_get B c pname s = Some (Inl LookupError, s)"
    using param_default [of c s pname "''get_command''" e fget_params_list "get_command c"]
    by (auto intro: get_unsupported)
  have w: "is_None (set_command c)
       \<and> (dynamic c \<longrightarrow> getattribute s (reserved_prefix @ pname @ ''_set_command'') = Inl e')
      \<longrightarrow> property_set B c pname v s = Some (Inl LookupError, s)"
    using param_default [of c s pname "''set_command''" e' fset_params_list "set_command c"]
    by (auto intro: set_unsupported)
  have fs: "property_get B (setting set_cmd vali vals mapv set_proc False kw) pname s
       = Some (Inl LookupError, s)"
    by (rule get_unsupported) (simp add: overrides_def param_def setting_def control_def)
  have fm: "property_set B (measurement get_cmd vals' mapv' get_proc cmd_proc False kw') pname v s
       = Some (Inl LookupError, s)"
    by (rule set_unsupported) (simp add: overrides_def param_def measurement_def control_def)
  from g w fs fm show ?thesis
    by (simp add: get_unsupported set_unsupported)
qed

theorem unsupported_direction_witness:
  "is_None (get_command volt_setting)
   \<and> getattribute bench (reserved_prefix @ ''volt'' @ ''_get_command'')
        = Inl (AttributeError ''___volt_get_command'')
   \<and> property_get plain_builtins volt_setting ''volt'' bench = Some (Inl LookupError, bench)"
  using unsupported_direction [where s = bench and c = volt_setting and pname = "''volt''"
      and B = plain_builtins and e = "AttributeError ''___volt_get_command''"]
  by (simp add: bench_defs attribute_defs)

text \<open>
  The claim as first stated fails on an overridable command: \<open>volt\<close> is built by the
  \<open>setting\<close> factory, without a read template; once the instance is given
  \<open>volt_get_command\<close>, reading \<open>volt\<close> queries the transport and returns the token.
\<close>

theorem overridden_setting_is_read:
  "setattr plain_builtins ''volt_get_command'' (Data (VStr ''V?'')) bench
     = Some (Inr (), bench\<lparr>idict := [(''___volt_get_command'', Obj (Data (VStr ''V?'')))]\<rparr>)
   \<and> property_get plain_builtins volt_setting ''volt''
        (bench\<lparr>idict := [(''___volt_get_command'', Obj (Data (VStr ''V?'')))]\<rparr>)
     = Some (Inr (VNum 1),
         bench\<lparr>idict := [(''___volt_get_command'', Obj (Data (VStr ''V?'')))],
           adapter := bench_adapter\<lparr>trace := [Ask (VStr ''SYST:ERR?''), Ask (VStr ''*OPC?''),
              Values (VStr ''V?'') [], Ask (VStr ''*OPC?'')], clock := 4\<rparr>\<rparr>)"
  by (simp add: setattr_def property_get_def fget_def bench_defs attribute_defs transaction_defs)

subsection \<open>The status property\<close>

text \<open>
  Claim C9. On a session whose identification has not matched, \<open>status\<close> does not
  report a state: the call \<open>self.get_id(check_for_errors=False)\<close> names a parameter
  that \<open>get_id\<close> does not have, so the property raises \<open>TypeError\<close> before anything is
  sent.
\<close>

theorem status_unhealthy_raises:
  "\<not> communication_success s \<Longrightarrow> status s = Some (Inl TypeError, s)"
  by (simp add: status_def call_get_id_def get_id_params_def bind_res_def)

lemma degraded_construction:
  "init bench_adapter ''bench'' True ''OTHER'' bench_classes [] = Some (Inr (), degraded)"
  by (simp add: init_def get_id_def init_special_names_def setup_special_names_def
      degraded_def bench_defs attribute_defs transaction_defs strip_def is_space_def)

theorem status_unhealthy_raises_witness:
  "init bench_adapter ''bench'' True ''OTHER'' bench_classes [] = Some (Inr (), degraded)
   \<and> \<not> communication_success degraded
   \<and> status degraded = Some (Inl TypeError, degraded)"
  using status_unhealthy_raises [of degraded] degraded_construction
  by (simp add: degraded_def)

text \<open>On a session whose identification has matched, \<open>status\<close> reports the lock.\<close>

lemma status_healthy:
  "communication_success s \<Longrightarrow>
     status s = Some (Inr (if locked s then ''ok: busy'' else ''ok: ON''), s)"
  by (simp add: status_def)

subsection \<open>Write transactions: a value the validator rejects\<close>

text \<open>
  Claim C3. When the command has a write template in force and the validator in force
  raises on the value and the values in force, the write raises that same exception and
  the session is returned as it was: nothing was sent, the trace of the transport is
  unchanged.
\<close>

theorem invalid_value_is_not_written:
  assumes "\<not> is_None (param (overrides s c pname fset_params_list) ''set_command'' (set_command c))"
      and "call (param (overrides s c pname fset_params_list) ''validator'' (validator c))
             [v, as_val (param (overrides s c pname fset_params_list) ''values'' (values_p c))]
           = Inl e"
  shows "property_set B c pname v s = Some (Inl e, s)"
  using assms by (simp add: property_set_def fset_def Let_def)

theorem invalid_value_is_not_written_witness:
  "call member_validator [VStr ''MID'', as_val mode_values] = Inl ValueError
   \<and> property_set plain_builtins mode_control ''mode'' (VStr ''MID'') bench
       = Some (Inl ValueError, bench)"
  using invalid_value_is_not_written [of bench mode_control "''mode''" "VStr ''MID''"
      ValueError plain_builtins]
  by (simp add: bench_defs attribute_defs)

subsection \<open>Read transactions\<close>

lemma find_first:
  "v \<notin> snd ` set pre \<Longrightarrow> find (\<lambda>kv. snd kv = v) (pre @ (k, v) # post) = Some (k, v)"
  by (induction pre) auto

lemma find_none: "v \<notin> snd ` set kvs \<Longrightarrow> find (\<lambda>kv. snd kv = v) kvs = None"
  by (induction kvs) auto

lemma fget_one:
  assumes "\<not> is_None get_cmd" "call cmd_proc [as_val get_cmd] = Inr cmd"
      "values_m cmd kw s = Some (Inr [tok], s')"
  shows "fget B get_cmd vals mapv get_proc cmd_proc kw s =
     (case call get_proc [tok] of
        Inl e \<Rightarrow> Some (Inl e, s')
      | Inr v \<Rightarrow> if \<not> truthy mapv then Some (Inr v, s') else Some (map_decode B vals v, s'))"
  using assms by (simp add: fget_def bind_res_def)

lemma fget_many:
  assumes "\<not> is_None get_cmd" "call cmd_proc [as_val get_cmd] = Inr cmd"
      "values_m cmd kw s = Some (Inr toks, s')" "length toks \<noteq> 1"
  shows "fget B get_cmd vals mapv get_proc cmd_proc kw s = Some (call get_proc [VList toks], s')"
  using assms by (auto simp: fget_def bind_res_def split: list.splits)

text \<open>
  Claim C4. The read template is present, \<open>command_process\<close> yields the command
  \<open>cmd\<close>, and the session's \<open>values\<close> returns the tokens \<open>toks\<close>. With exactly one
  token and no value mapping the result is \<open>get_process\<close> of the token. With value
  mapping and a list or tuple of values, the processed token, as an integer, indexes the
  sequence; with a dict, the result is the first key whose value equals the processed
  token, and \<open>KeyError\<close> when no value does. With more than one token the result is
  \<open>get_process\<close> of the whole list, whatever \<open>map_values\<close> is.
\<close>

theorem read_transaction:
  assumes "\<not> is_None get_cmd"
      and "call cmd_proc [as_val get_cmd] = Inr cmd"
      and "values_m cmd kw s = Some (Inr toks, s')"
  shows "(toks = [tok] \<and> \<not> truthy mapv
            \<longrightarrow> fget B get_cmd vals mapv get_proc cmd_proc kw s = Some (call get_proc [tok], s'))
       \<and> (toks = [tok] \<and> truthy mapv \<and> call get_proc [tok] = Inr v
            \<and> (vals = Data (VList xs) \<or> vals = Data (VTuple xs))
            \<and> py_int B v = Inr i \<and> 0 \<le> i \<and> i < int (length xs)
            \<longrightarrow> fget B get_cmd vals mapv get_proc cmd_proc kw s = Some (Inr (xs ! nat i), s'))
       \<and> (toks = [tok] \<and> truthy mapv \<and> call get_proc [tok] = Inr v
            \<and> vals = Data (VDict (pre @ (k, v) # post)) \<and> v \<notin> snd ` set pre
            \<longrightarrow> fget B get_cmd vals mapv get_proc cmd_proc kw s = Some (Inr k, s'))
       \<and> (toks = [tok] \<and> truthy mapv \<and> call get_proc [tok] = Inr v
            \<and> vals = Data (VDict kvs) \<and> v \<notin> snd ` set kvs
            \<longrightarrow> fget B get_cmd vals mapv get_proc cmd_proc kw s = Some (Inl KeyError, s'))
       \<and> (1 < length toks
            \<longrightarrow> fget B get_cmd vals mapv get_proc cmd_proc kw s
                  = Some (call get_proc [VList toks], s'))"
proof -
  have one: "toks = [tok] \<Longrightarrow> fget B get_cmd vals mapv get_proc cmd_proc kw s =
     (case call get_proc [tok] of
        Inl e \<Rightarrow> Some (Inl e, s')
      | Inr v \<Rightarrow> if \<not> truthy mapv then Some (Inr v, s') else Some (map_decode B vals v, s'))"
    using assms fget_one by simp
  have a: "toks = [tok] \<and> \<not> truthy mapv
            \<longrightarrow> fget B get_cmd vals mapv get_proc cmd_proc kw s = Some (call get_proc [tok], s')"
    using one by (auto split: sum.splits)
  have b: "toks = [tok] \<and> truthy mapv \<and> call get_proc [tok] = Inr v
            \<and> (vals = Data (VList xs) \<or> vals = Data (VTuple xs))
            \<and> py_int B v = Inr i \<and> 0 \<le> i \<and> i < int (length xs)
            \<longrightarrow> fget B get_cmd vals mapv get_proc cmd_proc kw s = Some (Inr (xs ! nat i), s')"
    using one by (auto simp: map_decode_def py_getitem_def)
  have c: "toks = [tok] \<and> truthy mapv \<and> call get_proc [tok] = Inr v
            \<and> vals = Data (VDict (pre @ (k, v) # post)) \<and> v \<notin> snd ` set pre
            \<longrightarrow> fget B get_cmd vals mapv get_proc cmd_proc kw s = Some (Inr k, s')"
    using one by (auto simp: map_decode_def find_first)
  have d: "toks = [tok] \<and> truthy mapv \<and> call get_proc [tok] = Inr v
            \<and> vals = Data (VDict kvs) \<and> v \<notin> snd ` set kvs
            \<longrightarrow> fget B get_cmd vals mapv get_proc cmd_proc kw s = Some (Inl KeyError, s')"
    using one by (auto simp: map_decode_def find_none)
  have e: "1 < length toks
            \<longrightarrow> fget B get_cmd vals mapv get_proc cmd_proc kw s
                  = Some (call get_proc [VList toks], s')"
    using assms fget_many [of get_cmd cmd_proc cmd kw s toks s'] by auto
  from a b c d e show ?thesis by blast
qed

lemma bench_values:
  "values_m (VStr ''M?'') [] bench =
     Some (Inr [VNum 1], bench\<lparr>adapter := bench_adapter\<lparr>trace := [Ask (VStr ''SYST:ERR?''),
       Ask (VStr ''*OPC?''), Values (VStr ''M?'') [], Ask (VStr ''*OPC?'')], clock := 4\<rparr>\<rparr>)"
  by (simp add: bench_defs transaction_defs)

theorem read_transaction_witness:
  "fget plain_builtins (get_command mode_control) mode_values (map_values mode_control)
     identity1 identity1 [] bench
   = Some (Inr (VStr ''HIGH''),
       bench\<lparr>adapter := bench_adapter\<lparr>trace := [Ask (VStr ''SYST:ERR?''),
         Ask (VStr ''*OPC?''), Values (VStr ''M?'') [], Ask (VStr ''*OPC?'')], clock := 4\<rparr>\<rparr>)"
  using read_transaction [where get_cmd = "get_command mode_control" and cmd_proc = identity1
      and cmd = "VStr ''M?''" and kw = "[]" and s = bench and toks = "[VNum 1]"
      and s' = "bench\<lparr>adapter := bench_adapter\<lparr>trace := [Ask (VStr ''SYST:ERR?''),
         Ask (VStr ''*OPC?''), Values (VStr ''M?'') [], Ask (VStr ''*OPC?'')], clock := 4\<rparr>\<rparr>"
      and tok = "VNum 1" and mapv = "map_values mode_control" and get_proc = identity1
      and v = "VNum 1" and vals = mode_values and pre = "[(VStr ''LOW'', VNum 0)]"
      and k = "VStr ''HIGH''" and post = "[]" and B = plain_builtins]
    bench_values
  by (simp add: mode_control_def mode_values_def control_def identity1_def)

subsection \<open>Value mapping: reading back what was written\<close>

lemma py_index_from_nth:
  "v \<in> set xs \<Longrightarrow>
     \<exists>j < length xs. py_index_from i xs v = Inr (VNum (of_nat (i + j))) \<and> xs ! j = v"
proof (induction xs arbitrary: i)
  case Nil
  then show ?case by simp
next
  case (Cons x xs)
  show ?case
  proof (cases "x = v")
    case True
    then show ?thesis by auto
  next
    case False
    with Cons.prems have "v \<in> set xs" by simp
    from Cons.IH [OF this, of "Suc i"] obtain j where
      "j < length xs" "py_index_from (Suc i) xs v = Inr (VNum (of_nat (Suc i + j)))" "xs ! j = v"
      by blast
    with False show ?thesis by (intro exI [of _ "Suc j"]) simp
  qed
qed

lemma seq_round_trip:
  assumes "v \<in> set xs"
  shows "\<exists>j. py_index xs v = Inr (VNum (of_nat j)) \<and>
           (case py_int B (VNum (of_nat j)) of Inl e \<Rightarrow> Inl e | Inr i \<Rightarrow> py_getitem xs i) = Inr v"
proof -
  from py_index_from_nth [OF assms, of 0] obtain j where
    j: "j < length xs" "py_index_from 0 xs v = Inr (VNum (of_nat j))" "xs ! j = v" by auto
  have "py_int B (VNum (of_nat j)) = Inr (int j)" by (simp add: py_int_def)
  with j show ?thesis by (auto simp: py_index_def py_getitem_def)
qed

lemma find_distinct_snd:
  "distinct (map snd kvs) \<Longrightarrow> (k, c) \<in> set kvs \<Longrightarrow> find (\<lambda>kv. snd kv = c) kvs = Some (k, c)"
  by (induction kvs) (auto simp: image_iff)

lemma dict_round_trip:
  assumes "distinct (map fst kvs)" "distinct (map snd kvs)" "hashable k" "(k, c) \<in> set kvs"
  shows "map_encode (Data (VDict kvs)) k = Inr c \<and> map_decode B (Data (VDict kvs)) c = Inr k"
  using assms by (simp add: map_encode_def map_decode_def dict_getitem_def find_distinct_snd)

lemma code_round_trip:
  assumes "(vals = Data (VDict kvs) \<and> distinct (map fst kvs) \<and> distinct (map snd kvs)
              \<and> hashable v \<and> v \<in> fst ` set kvs)
           \<or> ((vals = Data (VList xs) \<or> vals = Data (VTuple xs)) \<and> v \<in> set xs)"
  shows "\<exists>code. map_encode vals v = Inr code \<and> map_decode B vals code = Inr v"
  using assms
proof (elim disjE conjE)
  assume "vals = Data (VDict kvs)" "distinct (map fst kvs)" "distinct (map snd kvs)"
    "hashable v" "v \<in> fst ` set kvs"
  then show ?thesis using dict_round_trip [of kvs v _ B] by force
next
  assume "vals = Data (VList xs)" "v \<in> set xs"
  then show ?thesis using seq_round_trip [of v xs B] by (auto simp: map_encode_def map_decode_def)
next
  assume "vals = Data (VTuple xs)" "v \<in> set xs"
  then show ?thesis using seq_round_trip [of v xs B] by (auto simp: map_encode_def map_decode_def)
qed

lemma fset_mapped:
  assumes "\<not> is_None set_cmd" "call vali [v, as_val vals] = Inr v" "truthy mapv"
      "map_encode vals v = Inr code"
  shows "fset B set_cmd vali vals mapv identity1 identity1 v s =
           (case percent B (as_val set_cmd) code of
              Inl e \<Rightarrow> Some (Inl e, s) | Inr cmd \<Rightarrow> write_m cmd s)"
  using assms by (simp add: fset_def identity1_def)

lemma fget_mapped:
  assumes "\<not> is_None get_cmd" "values_m (as_val get_cmd) kw s = Some (Inr [code], s')"
      "truthy mapv" "map_decode B vals code = Inr v"
  shows "fget B get_cmd vals mapv identity1 identity1 kw s = Some (Inr v, s')"
  using assms by (simp add: fget_def identity1_def bind_res_def)

text \<open>
  Claim C5. Value mapping is on, the processors are the identity, and \<open>v\<close> is a key
  of a dict of values with distinct keys and distinct codes, or an element of a list or
  tuple of values. Then there is a wire code such that the write side translates \<open>v\<close>
  to it and the read side translates it back to \<open>v\<close>; a write of \<open>v\<close> that the
  validator accepts formats exactly that code into the write template, and a read whose
  reply is that code as its single token returns \<open>v\<close>.
\<close>

theorem value_mapping_round_trip:
  assumes "truthy mapv"
      and "(vals = Data (VDict kvs) \<and> distinct (map fst kvs) \<and> distinct (map snd kvs)
              \<and> hashable v \<and> v \<in> fst ` set kvs)
           \<or> ((vals = Data (VList xs) \<or> vals = Data (VTuple xs)) \<and> v \<in> set xs)"
  shows "\<exists>code. map_encode vals v = Inr code \<and> map_decode B vals code = Inr v
           \<and> (\<not> is_None set_cmd \<and> call vali [v, as_val vals] = Inr v
                \<longrightarrow> fset B set_cmd vali vals mapv identity1 identity1 v s =
                     (case percent B (as_val set_cmd) code of
                        Inl e \<Rightarrow> Some (Inl e, s) | Inr cmd \<Rightarrow> write_m cmd s))
           \<and> (\<not> is_None get_cmd \<and> values_m (as_val get_cmd) kw s1 = Some (Inr [code], s2)
                \<longrightarrow> fget B get_cmd vals mapv identity1 identity1 kw s1 = Some (Inr v, s2))"
proof -
  from code_round_trip [OF assms(2), of B] obtain code where
    c: "map_encode vals v = Inr code" "map_decode B vals code = Inr v" by blast
  show ?thesis
    using c assms(1) fset_mapped [of set_cmd vali v vals mapv code B s]
      fget_mapped [of get_cmd kw s1 code s2 mapv B vals v]
    by (intro exI [of _ code]) simp
qed

theorem value_mapping_round_trip_witness:
  "\<exists>code. map_encode mode_values (VStr ''HIGH'') = Inr code
     \<and> map_decode plain_builtins mode_values code = Inr (VStr ''HIGH'')
     \<and> fset plain_builtins (Data (VStr ''M %d'')) member_validator mode_values (Data (VNum 1))
          identity1 identity1 (VStr ''HIGH'') bench =
         (case percent plain_builtins (VStr ''M %d'') code of
            Inl e \<Rightarrow> Some (Inl e, bench) | Inr cmd \<Rightarrow> write_m cmd bench)"
proof -
  have m: "truthy (Data (VNum 1))" by simp
  have d: "(mode_values = Data (VDict [(VStr ''LOW'', VNum 0), (VStr ''HIGH'', VNum 1)])
              \<and> distinct (map fst [(VStr ''LOW'', VNum 0), (VStr ''HIGH'', VNum 1)])
              \<and> distinct (map snd [(VStr ''LOW'', VNum 0), (VStr ''HIGH'', VNum 1)])
              \<and> hashable (VStr ''HIGH'')
              \<and> VStr ''HIGH'' \<in> fst ` set [(VStr ''LOW'', VNum 0), (VStr ''HIGH'', VNum 1)])
           \<or> ((mode_values = Data (VList []) \<or> mode_values = Data (VTuple []))
               \<and> VStr ''HIGH'' \<in> set [])"
    by (simp add: mode_values_def)
  have v: "\<not> is_None (Data (VStr ''M %d''))
           \<and> call member_validator [VStr ''HIGH'', as_val mode_values] = Inr (VStr ''HIGH'')"
    by (simp add: mode_values_def member_validator_def)
  from value_mapping_round_trip [OF m d, of plain_builtins "Data (VStr ''M %d'')"
      member_validator bench] obtain code where
    c: "map_encode mode_values (VStr ''HIGH'') = Inr code"
       "map_decode plain_builtins mode_values code = Inr (VStr ''HIGH'')"
       "\<not> is_None (Data (VStr ''M %d''))
          \<and> call member_validator [VStr ''HIGH'', as_val mode_values] = Inr (VStr ''HIGH'')
        \<longrightarrow> fset plain_builtins (Data (VStr ''M %d'')) member_validator mode_values
              (Data (VNum 1)) identity1 identity1 (VStr ''HIGH'') bench =
            (case percent plain_builtins (as_val (Data (VStr ''M %d''))) code of
               Inl e \<Rightarrow> Some (Inl e, bench) | Inr cmd \<Rightarrow> write_m cmd bench)"
    by blast
  from c(3) v have "fset plain_builtins (Data (VStr ''M %d'')) member_validator mode_values
              (Data (VNum 1)) identity1 identity1 (VStr ''HIGH'') bench =
            (case percent plain_builtins (VStr ''M %d'') code of
               Inl e \<Rightarrow> Some (Inl e, bench) | Inr cmd \<Rightarrow> write_m cmd bench)"
    by simp
  with c(1,2) show ?thesis by blast
qed

subsection \<open>The reserved names\<close>

text \<open>
  The special names are exactly the names \<open><property>_<parameter>\<close> of the dynamic
  properties found in the dictionaries; none of them is a name the class itself uses.
\<close>

lemma special_names_of_form:
  "n \<in> set (special_names_of d) \<Longrightarrow>
     \<exists>p c a. (p, Prop c) \<in> set d \<and> dynamic c \<and> a \<in> set dynamic_params \<and> n = p @ ''_'' @ a"
proof (induction d rule: special_names_of.induct)
  case 1
  then show ?case by simp
next
  case (2 attr_name a rest)
  show ?case
  proof (cases "is_DynamicProperty a")
    case True
    then obtain c where c: "a = Prop c" "dynamic c" by (cases a) auto
    from 2 True consider (here) "n \<in> (\<lambda>key. attr_name @ ''_'' @ key) ` set dynamic_params"
      | (there) "n \<in> set (special_names_of rest)" by auto
    then show ?thesis
    proof cases
      case here
      with c show ?thesis by auto
    next
      case there
      with 2 True show ?thesis by fastforce
    qed
  next
    case False
    with 2 show ?thesis by fastforce
  qed
qed

lemma special_names_of_complete:
  "(p, Prop c) \<in> set d \<Longrightarrow> dynamic c \<Longrightarrow> a \<in> set dynamic_params
     \<Longrightarrow> p @ ''_'' @ a \<in> set (special_names_of d)"
  by (induction d rule: special_names_of.induct) auto

lemma override_name_ending:
  assumes "a \<in> set dynamic_params" "n = p @ ''_'' @ a"
  shows "take 7 (rev n) = ''seulav_'' \<or> take 8 (rev n) = ''dnammoc_''
       \<or> take 8 (rev n) = ''ssecorp_'' \<or> take 10 (rev n) = ''rotadilav_''"
  using assms by (auto simp: dynamic_params_def fget_params_list_def fset_params_list_def)

lemma used_names_not_special:
  assumes "a \<in> set dynamic_params" "n = p @ ''_'' @ a"
  shows "n \<notin> set names_used_by_the_class"
proof
  assume "n \<in> set names_used_by_the_class"
  then have "\<not> (take 7 (rev n) = ''seulav_'' \<or> take 8 (rev n) = ''dnammoc_''
       \<or> take 8 (rev n) = ''ssecorp_'' \<or> take 10 (rev n) = ''rotadilav_'')"
    by (auto simp: names_used_by_the_class_def)
  with override_name_ending [OF assms] show False by blast
qed

lemma fields_never_special:
  assumes "n \<in> set (concat (map special_names_of ds))"
  shows "n \<notin> set names_used_by_the_class"
proof -
  from assms obtain d where "n \<in> set (special_names_of d)" by auto
  from special_names_of_form [OF this] obtain p a where
    "a \<in> set dynamic_params" "n = p @ ''_'' @ a" by blast
  then show ?thesis by (rule used_names_not_special)
qed








subsection \<open>Overrides declared in classes\<close>

text \<open>
  What the constructor copies into a reserved slot, for any classes: the value of the
  last class along the \<open>mro\<close> that defines the name, that is, of the least derived
  one.
\<close>

lemma copy_class_level_other:
  "\<forall>k \<in> set sp. reserved_prefix @ k \<noteq> x \<Longrightarrow> map_of (copy_class_level sp cls d) x = map_of d x"
  by (induction sp cls d rule: copy_class_level.induct) (auto simp: update_conv')

lemma copy_class_level_slot:
  assumes "distinct (map fst cls)" "k \<in> set sp"
  shows "map_of (copy_class_level sp cls d) (reserved_prefix @ k) =
           (case map_of cls k of Some v \<Rightarrow> Some v | None \<Rightarrow> map_of d (reserved_prefix @ k))"
  using assms
proof (induction sp cls d rule: copy_class_level.induct)
  case (1 sp d)
  then show ?case by simp
next
  case (2 sp k' v rest d)
  show ?case
  proof (cases "k' = k")
    case True
    with "2.prems" have nk: "map_of rest k = None"
      by (simp add: map_of_eq_None_iff)
    have "map_of (copy_class_level sp rest (AList.update (reserved_prefix @ k) v d))
            (reserved_prefix @ k)
          = map_of (AList.update (reserved_prefix @ k) v d) (reserved_prefix @ k)"
      using "2.IH"(1) [of ] "2.prems" True nk by simp
    with True "2.prems" show ?thesis by (simp add: update_conv')
  next
    case False
    with "2.prems" "2.IH" show ?thesis by (auto simp: update_conv' split: option.splits)
  qed
qed

lemma snapshot_is_last_definition:
  assumes "list_all (\<lambda>cls. distinct (map fst cls)) classes" "k \<in> set sp"
  shows "map_of (foldl (\<lambda>d cls. copy_class_level sp cls d) d classes) (reserved_prefix @ k) =
           (case class_lookup (rev classes) k of
              Some v \<Rightarrow> Some v | None \<Rightarrow> map_of d (reserved_prefix @ k))"
  using assms
proof (induction classes arbitrary: d rule: rev_induct)
  case Nil
  then show ?case by simp
next
  case (snoc cls classes)
  then show ?case by (simp add: copy_class_level_slot split: option.splits)
qed

lemma snapshot_of_construction:
  assumes "idict s = []" "list_all (\<lambda>cls. distinct (map fst cls)) (mro s)"
      and "k \<in> set (concat (map special_names_of (mro s)))"
  shows "\<exists>s'. init_special_names s = (Inr (), s')
           \<and> special_names s' = Some (concat (map special_names_of (mro s)))
           \<and> map_of (idict s') (reserved_prefix @ k) = class_lookup (rev (mro s)) k"
proof -
  let ?sp = "concat (map special_names_of (mro s))"
  have "map_of (foldl (\<lambda>d cls. copy_class_level ?sp cls d) [] (mro s)) (reserved_prefix @ k)
          = class_lookup (rev (mro s)) k"
    using snapshot_is_last_definition [OF assms(2), of k ?sp "[]"] assms(3)
    by (simp split: option.splits)
  then show ?thesis
    using assms(1) by (simp add: init_special_names_def setup_special_names_def Let_def)
qed

text \<open>
  Claim C1, at an instance of a class two levels below the class that declares the
  command, both subclasses overriding \<open>freq_values\<close>. Ordinary lookup along the classes
  finds the value of the most derived class, \<open>(1, 5)\<close>. The constructor copies the
  class-level values in the order of the \<open>mro\<close>, each copy overwriting the one before,
  so the instance ends up with the value of the less derived class, \<open>(1, 10)\<close>, and
  that is what reads and writes of \<open>freq\<close> use.
\<close>

theorem least_derived_override_wins:
  "class_lookup leaf_classes ''freq_values'' = Some (Obj (Data (VTuple [VNum 1, VNum 5])))
   \<and> init bench_adapter ''leaf'' True ''ACME'' leaf_classes [] = Some (Inr (), leaf_session)
   \<and> param (overrides leaf_session freq_control ''freq'' fget_params_list)
        ''values'' (values_p freq_control) = Data (VTuple [VNum 1, VNum 10])
   \<and> param (overrides leaf_session freq_control ''freq'' fset_params_list)
        ''values'' (values_p freq_control) = Data (VTuple [VNum 1, VNum 10])"
  by (simp add: init_def get_id_def init_special_names_def setup_special_names_def
      leaf_session_def leaf_classes_def freq_control_def bench_defs attribute_defs
      transaction_defs strip_def is_space_def)

subsection \<open>Draining the error queue\<close>

lemma ask_no_lock_result:
  "ask_no_lock cmd s =
     ((case fault (device (adapter s) (Ask cmd # trace (adapter s))) of
         Some e \<Rightarrow> Inl e
       | None \<Rightarrow> Inr (reply_text (device (adapter s) (Ask cmd # trace (adapter s))))),
      s\<lparr>adapter := (adapter s)\<lparr>trace := Ask cmd # trace (adapter s),
          clock := clock (adapter s) + took (device (adapter s) (Ask cmd # trace (adapter s)))\<rparr>\<rparr>)"
  by (simp add: ask_no_lock_def adapter_text_def perform_def Let_def split: option.splits)

lemma error_reply_step:
  "error_reply (snd (ask_no_lock (VStr ''SYST:ERR?'') s)) i = error_reply s (Suc i)"
  by (simp add: ask_no_lock_result error_reply_def replicate_app_Cons_same)

lemma flush_loop_drains:
  assumes "\<forall>i < length es. fault (error_reply s i) = None
              \<and> reply_text (error_reply s i) = es ! i \<and> \<not> startswith (es ! i) ''+0''"
      and "fault (error_reply s (length es)) = None"
      and "startswith (reply_text (error_reply s (length es))) ''+0''"
  shows "\<exists>s'. flush_loop acc s = Some (Inr (acc @ es), s')"
  using assms
proof (induction es arbitrary: s acc)
  case Nil
  then show ?case
    by (subst flush_loop.simps) (simp add: ask_no_lock_result error_reply_def)
next
  case (Cons e es)
  from Cons.prems(1) have h0: "fault (error_reply s 0) = None"
    "reply_text (error_reply s 0) = e" "\<not> startswith e ''+0''" by auto
  obtain s1 where s1: "s1 = snd (ask_no_lock (VStr ''SYST:ERR?'') s)" by simp
  with h0 have a: "ask_no_lock (VStr ''SYST:ERR?'') s = (Inr e, s1)"
    by (simp add: ask_no_lock_result error_reply_def)
  have 1: "\<forall>i < length es. fault (error_reply s1 i) = None
              \<and> reply_text (error_reply s1 i) = es ! i \<and> \<not> startswith (es ! i) ''+0''"
    using Cons.prems(1) unfolding s1 by (auto simp: error_reply_step)
  have 2: "fault (error_reply s1 (length es)) = None"
    using Cons.prems(2) unfolding s1 by (simp add: error_reply_step)
  have 3: "startswith (reply_text (error_reply s1 (length es))) ''+0''"
    using Cons.prems(3) unfolding s1 by (simp add: error_reply_step)
  from Cons.IH [OF 1 2 3, of "acc @ [e]"] obtain s' where
    "flush_loop (acc @ [e]) s1 = Some (Inr (acc @ e # es), s')" by auto
  with a h0(3) have "flush_loop acc s = Some (Inr (acc @ e # es), s')"
    by (subst flush_loop.simps) simp
  then show ?case by blast
qed


lemma check_errors_raises:
  "flush_errors s = Some (Inr errs, s') \<Longrightarrow>
     check_errors s = (if errs = [] then Some (Inr (), s')
                       else Some (Inl (RuntimeError (error_message (hd errs))), s'))"
  by (simp add: check_errors_def bind_res_def)

lemma with_lock_free:
  "\<not> locked s \<Longrightarrow> body (s\<lparr>locked := True\<rparr>) = Some (r, s')
     \<Longrightarrow> with_lock body s = Some (r, s'\<lparr>locked := False\<rparr>)"
  by (simp add: with_lock_def)

lemma write_fails_on_error:
  assumes "\<not> locked t" "wait_until_ready default_timeout (t\<lparr>locked := True\<rparr>) = (Inr (), ta)"
    "lift_write cmd ta = Some (Inr (), tb)" "flush_errors tb = Some (Inr errs, tc)" "errs \<noteq> []"
  shows "write_m cmd t = Some (Inl (RuntimeError (error_message (hd errs))), tc\<lparr>locked := False\<rparr>)"
  unfolding write_m_def
  by (rule with_lock_free [OF assms(1)])
     (simp add: bind_res_def assms check_errors_raises)

lemma ask_fails_on_error:
  assumes "\<not> locked t" "wait_until_ready default_timeout (t\<lparr>locked := True\<rparr>) = (Inr (), ta)"
    "lift_text (Ask cmd) ta = Some (Inr x, tb)" "flush_errors tb = Some (Inr errs, tc)" "errs \<noteq> []"
  shows "ask cmd True t = Some (Inl (RuntimeError (error_message (hd errs))), tc\<lparr>locked := False\<rparr>)"
  unfolding ask_def
  by (rule with_lock_free [OF assms(1)])
     (simp add: bind_res_def assms check_errors_raises)

lemma read_fails_on_error:
  assumes "\<not> locked t" "wait_until_ready default_timeout (t\<lparr>locked := True\<rparr>) = (Inr (), ta)"
    "lift_text Read ta = Some (Inr x, tb)" "flush_errors tb = Some (Inr errs, tc)" "errs \<noteq> []"
  shows "read t = Some (Inl (RuntimeError (error_message (hd errs))), tc\<lparr>locked := False\<rparr>)"
  unfolding read_def
  by (rule with_lock_free [OF assms(1)])
     (simp add: bind_res_def assms check_errors_raises)

lemma values_fails_on_error:
  assumes "\<not> locked t" "wait_until_ready default_timeout (t\<lparr>locked := True\<rparr>) = (Inr (), ta)"
    "lift_seq (Values cmd kw) ta = Some (Inr x, tb)" "flush_errors tb = Some (Inr errs, tc)" "errs \<noteq> []"
  shows "values_m cmd kw t = Some (Inl (RuntimeError (error_message (hd errs))), tc\<lparr>locked := False\<rparr>)"
  unfolding values_m_def
  by (rule with_lock_free [OF assms(1)])
     (simp add: bind_res_def assms check_errors_raises)

lemma binary_values_fails_on_error:
  assumes "\<not> locked t" "wait_until_ready default_timeout (t\<lparr>locked := True\<rparr>) = (Inr (), ta)"
    "lift_seq (BinaryValues cmd hb dt) ta = Some (Inr x, tb)" "flush_errors tb = Some (Inr errs, tc)" "errs \<noteq> []"
  shows "binary_values cmd hb dt t = Some (Inl (RuntimeError (error_message (hd errs))), tc\<lparr>locked := False\<rparr>)"
  unfolding binary_values_def
  by (rule with_lock_free [OF assms(1)])
     (simp add: bind_res_def assms check_errors_raises)

text \<open>
  Claim C6. On a session that is ready, let the device answer the successive error
  queries with the replies \<open>es\<close>, none of which starts with \<open>+0\<close>, and then with a
  reply that does. Then \<open>_flush_errors\<close> returns exactly \<open>es\<close>, in that order (the
  empty list when the first reply is the sentinel), and \<open>check_errors\<close> returns
  normally when \<open>es\<close> is empty and otherwise raises \<open>RuntimeError\<close> with a message that
  holds the first reply. Every transaction whose drain returns a non-empty list raises
  that error, and releases the lock.
\<close>

theorem error_queue_drain:
  "(SCPI s \<and> wait_until_ready default_timeout s = (Inr (), s1)
      \<and> (\<forall>i < length es. fault (error_reply s1 i) = None
              \<and> reply_text (error_reply s1 i) = es ! i \<and> \<not> startswith (es ! i) ''+0'')
      \<and> fault (error_reply s1 (length es)) = None
      \<and> startswith (reply_text (error_reply s1 (length es))) ''+0''
     \<longrightarrow> (\<exists>s2. flush_errors s = Some (Inr es, s2)
            \<and> check_errors s =
                (if es = [] then Some (Inr (), s2)
                 else Some (Inl (RuntimeError (error_message (hd es))), s2))))
   \<and> (flush_errors tb = Some (Inr errs, tc) \<and> errs \<noteq> []
     \<longrightarrow> check_errors tb = Some (Inl (RuntimeError (error_message (hd errs))), tc)
       \<and> (\<not> locked t \<and> wait_until_ready default_timeout (t\<lparr>locked := True\<rparr>) = (Inr (), ta)
         \<longrightarrow> (lift_write cmd ta = Some (Inr (), tb)
                \<longrightarrow> write_m cmd t
                     = Some (Inl (RuntimeError (error_message (hd errs))), tc\<lparr>locked := False\<rparr>))
           \<and> (lift_text (Ask cmd) ta = Some (Inr x, tb)
                \<longrightarrow> ask cmd True t
                     = Some (Inl (RuntimeError (error_message (hd errs))), tc\<lparr>locked := False\<rparr>))
           \<and> (lift_text Read ta = Some (Inr x, tb)
                \<longrightarrow> read t
                     = Some (Inl (RuntimeError (error_message (hd errs))), tc\<lparr>locked := False\<rparr>))
           \<and> (lift_seq (Values cmd kw) ta = Some (Inr xs, tb)
                \<longrightarrow> values_m cmd kw t
                     = Some (Inl (RuntimeError (error_message (hd errs))), tc\<lparr>locked := False\<rparr>))
           \<and> (lift_seq (BinaryValues cmd hb dt) ta = Some (Inr xs, tb)
                \<longrightarrow> binary_values cmd hb dt t
                     = Some (Inl (RuntimeError (error_message (hd errs))), tc\<lparr>locked := False\<rparr>))))
   \<and> error_message e =
        ''Error read from error queue. First error read from the error queue is: '' @ e
          @ [CHR 0x0A] @ ''See logs for more details''"
proof -
  have drain: "\<exists>s2. flush_errors s = Some (Inr es, s2)
            \<and> check_errors s =
                (if es = [] then Some (Inr (), s2)
                 else Some (Inl (RuntimeError (error_message (hd es))), s2))"
    if h: "SCPI s" "wait_until_ready default_timeout s = (Inr (), s1)"
      "\<forall>i < length es. fault (error_reply s1 i) = None
              \<and> reply_text (error_reply s1 i) = es ! i \<and> \<not> startswith (es ! i) ''+0''"
      "fault (error_reply s1 (length es)) = None"
      "startswith (reply_text (error_reply s1 (length es))) ''+0''"
  proof -
    from flush_loop_drains [OF h(3,4,5), of "[]"] obtain s2 where
      "flush_loop [] s1 = Some (Inr es, s2)" by auto
    with h(1,2) have f: "flush_errors s = Some (Inr es, s2)"
      by (simp add: flush_errors_def bind_res_def)
    from check_errors_raises [OF f] f show ?thesis by auto
  qed
  have trans: "check_errors tb = Some (Inl (RuntimeError (error_message (hd errs))), tc)
       \<and> (\<not> locked t \<and> wait_until_ready default_timeout (t\<lparr>locked := True\<rparr>) = (Inr (), ta)
         \<longrightarrow> (lift_write cmd ta = Some (Inr (), tb)
                \<longrightarrow> write_m cmd t
                     = Some (Inl (RuntimeError (error_message (hd errs))), tc\<lparr>locked := False\<rparr>))
           \<and> (lift_text (Ask cmd) ta = Some (Inr x, tb)
                \<longrightarrow> ask cmd True t
                     = Some (Inl (RuntimeError (error_message (hd errs))), tc\<lparr>locked := False\<rparr>))
           \<and> (lift_text Read ta = Some (Inr x, tb)
                \<longrightarrow> read t
                     = Some (Inl (RuntimeError (error_message (hd errs))), tc\<lparr>locked := False\<rparr>))
           \<and> (lift_seq (Values cmd kw) ta = Some (Inr xs, tb)
                \<longrightarrow> values_m cmd kw t
                     = Some (Inl (RuntimeError (error_message (hd errs))), tc\<lparr>locked := False\<rparr>))
           \<and> (lift_seq (BinaryValues cmd hb dt) ta = Some (Inr xs, tb)
                \<longrightarrow> binary_values cmd hb dt t
                     = Some (Inl (RuntimeError (error_message (hd errs))), tc\<lparr>locked := False\<rparr>)))"
    if f: "flush_errors tb = Some (Inr errs, tc)" "errs \<noteq> []"
    using check_errors_raises [OF f(1)] f(2)
      write_fails_on_error [of t ta cmd tb errs tc]
      ask_fails_on_error [of t ta cmd x tb errs tc]
      read_fails_on_error [of t ta x tb errs tc]
      values_fails_on_error [of t ta cmd kw xs tb errs tc]
      binary_values_fails_on_error [of t ta cmd hb dt xs tb errs tc]
    by (simp add: f)
  from drain trans show ?thesis by (simp add: error_message_def)
qed

lemma faulty_wait:
  "wait_until_ready default_timeout faulty =
     (Inr (), faulty\<lparr>adapter := \<lparr>trace = [Ask (VStr ''*OPC?'')], clock = 1, device = faulty_device\<rparr>\<rparr>)"
  by (simp add: faulty_def faulty_device_def bench_defs transaction_defs)

theorem error_queue_drain_witness:
  "\<exists>s2. flush_errors faulty
         = Some (Inr [''-113,Undefined header'', ''-222,Data out of range''], s2)
     \<and> check_errors faulty =
         Some (Inl (RuntimeError
           (''Error read from error queue. First error read from the error queue is: ''
             @ ''-113,Undefined header'' @ [CHR 0x0A] @ ''See logs for more details'')), s2)"
proof -
  let ?s1 = "faulty\<lparr>adapter := \<lparr>trace = [Ask (VStr ''*OPC?'')], clock = 1, device = faulty_device\<rparr>\<rparr>"
  let ?es = "[''-113,Undefined header'', ''-222,Data out of range'']"
  have 1: "SCPI faulty" by (simp add: faulty_def bench_def)
  have 3: "\<forall>i < length ?es. fault (error_reply ?s1 i) = None
              \<and> reply_text (error_reply ?s1 i) = ?es ! i \<and> \<not> startswith (?es ! i) ''+0''"
    by (simp add: less_Suc_eq error_reply_def faulty_device_def startswith_def)
  have 4: "fault (error_reply ?s1 (length ?es)) = None"
    by (simp add: error_reply_def faulty_device_def)
  have 5: "startswith (reply_text (error_reply ?s1 (length ?es))) ''+0''"
    by (simp add: error_reply_def faulty_device_def startswith_def)
  from error_queue_drain [of faulty ?s1 ?es] 1 faulty_wait 3 4 5
  show ?thesis by (simp add: error_message_def)
qed

subsection \<open>Waiting for readiness\<close>

lemma complete_result:
  "SCPI s \<Longrightarrow> complete s =
     (let r = device (adapter s) (Ask (VStr ''*OPC?'') # trace (adapter s));
          s' = s\<lparr>adapter := (adapter s)\<lparr>trace := Ask (VStr ''*OPC?'') # trace (adapter s),
                   clock := clock (adapter s) + took r\<rparr>\<rparr>
      in case fault r of
           Some e \<Rightarrow> (Inl e, s')
         | None \<Rightarrow> (if strip (reply_text r) = ''1'' then Inr (Some True)
                     else if strip (reply_text r) = ''0'' then Inr (Some False)
                     else Inr None, s'))"
  by (simp add: complete_def ask_no_lock_def adapter_text_def perform_def Let_def
      split: option.splits)

lemma wait_loop_times_out:
  assumes "SCPI s"
      and "\<forall>t. fault (device (adapter s) (Ask (VStr ''*OPC?'') # t)) = None
          \<and> strip (reply_text (device (adapter s) (Ask (VStr ''*OPC?'') # t))) \<noteq> ''1''"
  shows "\<exists>s'. wait_loop deadline s = (Inl TimeoutError, s') \<and> deadline < clock (adapter s')
           \<and> length (trace (adapter s'))
               \<le> length (trace (adapter s)) + (deadline + 100 - clock (adapter s)) div 100 + 1"
  using assms
proof (induction deadline s rule: wait_loop.induct)
  case (1 deadline s)
  let ?r = "device (adapter s) (Ask (VStr ''*OPC?'') # trace (adapter s))"
  let ?s1 = "s\<lparr>adapter := (adapter s)\<lparr>trace := Ask (VStr ''*OPC?'') # trace (adapter s),
                   clock := clock (adapter s) + took ?r\<rparr>\<rparr>"
  from "1.prems" have nf: "fault ?r = None" "strip (reply_text ?r) \<noteq> ''1''"
    by auto
  define c where "c = (if strip (reply_text ?r) = ''0'' then Some False else None)"
  have c: "complete s = (Inr c, ?s1)" "c \<noteq> Some True"
    using complete_result [OF "1.prems"(1)] nf by (simp_all add: Let_def c_def)
  show ?case
  proof (cases "deadline < clock (adapter ?s1)")
    case True
    with c have "wait_loop deadline s = (Inl TimeoutError, ?s1)"
      by (subst wait_loop.simps) simp
    with True show ?thesis by simp
  next
    case False
    let ?s2 = "?s1\<lparr>adapter := sleep 100 (adapter ?s1)\<rparr>"
    have p: "SCPI ?s2"
      "\<forall>t. fault (device (adapter ?s2) (Ask (VStr ''*OPC?'') # t)) = None
          \<and> strip (reply_text (device (adapter ?s2) (Ask (VStr ''*OPC?'') # t))) \<noteq> ''1''"
      using "1.prems" by (simp_all add: sleep_def)
    from "1.IH" [OF c(1) [symmetric] refl c(2) False p] obtain s' where
      s': "wait_loop deadline ?s2 = (Inl TimeoutError, s')" "deadline < clock (adapter s')"
        "length (trace (adapter s'))
           \<le> length (trace (adapter ?s2)) + (deadline + 100 - clock (adapter ?s2)) div 100 + 1"
      by blast
    from c False have "wait_loop deadline s = wait_loop deadline ?s2"
      by (subst wait_loop.simps) simp
    moreover have "length (trace (adapter ?s2)) + (deadline + 100 - clock (adapter ?s2)) div 100 + 1
        \<le> length (trace (adapter s)) + (deadline + 100 - clock (adapter s)) div 100 + 1"
      using False by (simp add: sleep_def) 
    ultimately show ?thesis using s' by auto
  qed
qed


lemma wait_loop_returns:
  assumes "\<forall>i < k. (\<exists>c. fst (complete (after_polls i s)) = Inr c \<and> c \<noteq> Some True)
              \<and> clock (adapter (snd (complete (after_polls i s)))) \<le> deadline"
      and "fst (complete (after_polls k s)) = Inr (Some True)"
  shows "wait_loop deadline s = (Inr (), snd (complete (after_polls k s)))"
  using assms
proof (induction k arbitrary: s)
  case 0
  obtain r s1 where rs: "complete s = (r, s1)" by (cases "complete s")
  with 0 have "r = Inr (Some True)" by simp
  with rs show ?case by (subst wait_loop.simps) simp
next
  case (Suc k)
  obtain s1 where s1: "s1 = snd (complete s)" by simp
  from Suc.prems(1) obtain c where
    c: "fst (complete s) = Inr c" "c \<noteq> Some True" "clock (adapter s1) \<le> deadline"
    unfolding s1 by force
  then have cs: "complete s = (Inr c, s1)" unfolding s1 by (cases "complete s") simp
  let ?s2 = "s1\<lparr>adapter := sleep 100 (adapter s1)\<rparr>"
  have a: "\<And>i. after_polls (Suc i) s = after_polls i ?s2" by (simp add: s1)
  have 1: "\<forall>i < k. (\<exists>c. fst (complete (after_polls i ?s2)) = Inr c \<and> c \<noteq> Some True)
              \<and> clock (adapter (snd (complete (after_polls i ?s2)))) \<le> deadline"
    using Suc.prems(1) a by (metis Suc_less_eq)
  have 2: "fst (complete (after_polls k ?s2)) = Inr (Some True)"
    using Suc.prems(2) a by simp
  from Suc.IH [OF 1 2] have "wait_loop deadline ?s2 = (Inr (), snd (complete (after_polls (Suc k) s)))"
    using a by simp
  with cs c show ?case by (subst wait_loop.simps) simp
qed

lemma write_times_out:
  assumes "\<not> locked s" "wait_until_ready default_timeout (s\<lparr>locked := True\<rparr>) = (Inl TimeoutError, s')"
  shows "write_m cmd s = Some (Inl TimeoutError, s'\<lparr>locked := False\<rparr>)"
  using assms by (simp add: write_m_def with_lock_def bind_res_def)

text \<open>
  What \<open>strip\<close> leaves: the text between a leading and a trailing run of whitespace.
  So the replies that \<open>complete\<close> reads as complete are the digit \<open>1\<close> with any
  whitespace around it, U+0085 and U+00A0 included.
\<close>

lemma strip_0: "strip ''0'' = ''0''" by (simp add: strip_def is_space_def)

lemma strip_ready: "strip [CHR 0xA0, CHR ''1'', CHR 0x85, CHR 0x0A] = ''1''"
  by (simp add: strip_def is_space_def)

lemma dropWhile_padded:
  assumes "list_all is_space pre" "x \<noteq> []" "\<not> is_space (hd x)"
  shows "dropWhile is_space (pre @ x @ post) = x @ post"
  using assms by (induction pre) (auto simp: neq_Nil_conv)

lemma strip_padded:
  assumes "list_all is_space pre" "list_all is_space post"
      and "x \<noteq> []" "\<not> is_space (hd x)" "\<not> is_space (last x)"
  shows "strip (pre @ x @ post) = x"
proof -
  have 1: "dropWhile is_space (pre @ x @ post) = x @ post"
    using assms(1,3,4) by (rule dropWhile_padded)
  have 2: "dropWhile is_space (rev post @ rev x @ []) = rev x @ []"
    using assms(2,3,5) by (intro dropWhile_padded) (simp_all add: list_all_iff hd_rev)
  from 1 2 show ?thesis by (simp add: strip_def)
qed

lemma strip_decomposition:
  "\<exists>pre post. s = pre @ strip s @ post \<and> list_all is_space pre \<and> list_all is_space post"
proof -
  let ?pre = "takeWhile is_space s" and ?r = "dropWhile is_space s"
  let ?post = "rev (takeWhile is_space (rev ?r))"
  have a: "s = ?pre @ ?r" by simp
  have b: "?r = strip s @ ?post"
    by (simp add: strip_def flip: rev_append)
  have c: "list_all is_space ?pre" "list_all is_space ?post"
    by (auto simp: list_all_iff dest: set_takeWhileD)
  from a b c show ?thesis by metis
qed

lemma is_space_codes:
  "list_all is_space pre \<and> list_all is_space post \<longleftrightarrow>
     of_char ` (set pre \<union> set post) \<subseteq> {9, 10, 11, 12, 13, 28, 29, 30, 31, 32, 133, 160 :: nat}"
  unfolding list_all_iff is_space_def by blast

lemma strip_is_1:
  "strip r = ''1'' \<longleftrightarrow>
     (\<exists>pre post. r = pre @ ''1'' @ post
        \<and> of_char ` (set pre \<union> set post) \<subseteq> {9, 10, 11, 12, 13, 28, 29, 30, 31, 32, 133, 160 :: nat})"
proof
  assume "strip r = ''1''"
  with strip_decomposition [of r] show "\<exists>pre post. r = pre @ ''1'' @ post
        \<and> of_char ` (set pre \<union> set post) \<subseteq> {9, 10, 11, 12, 13, 28, 29, 30, 31, 32, 133, 160 :: nat}"
    unfolding is_space_codes [symmetric] by metis
next
  assume "\<exists>pre post. r = pre @ ''1'' @ post
        \<and> of_char ` (set pre \<union> set post) \<subseteq> {9, 10, 11, 12, 13, 28, 29, 30, 31, 32, 133, 160 :: nat}"
  then obtain pre post where r: "r = pre @ ''1'' @ post"
    and "list_all is_space pre" "list_all is_space post"
    unfolding is_space_codes [symmetric] by blast
  then show "strip r = ''1''"
    unfolding r by (intro strip_padded) (simp_all add: is_space_def)
qed

lemma complete_reports:
  assumes "SCPI s" "fault (device (adapter s) (Ask (VStr ''*OPC?'') # trace (adapter s))) = None"
  shows "fst (complete s) = Inr (Some True) \<longleftrightarrow>
     (\<exists>pre post. reply_text (device (adapter s) (Ask (VStr ''*OPC?'') # trace (adapter s)))
           = pre @ ''1'' @ post
        \<and> of_char ` (set pre \<union> set post) \<subseteq> {9, 10, 11, 12, 13, 28, 29, 30, 31, 32, 133, 160 :: nat})"
  unfolding strip_is_1 [symmetric] using assms by (simp add: complete_result Let_def)

text \<open>
  Claim C7. On a session of the SCPI dialect whose device never answers a
  completion query with \<open>1\<close>, the wait raises \<open>TimeoutError\<close>: it does not return
  normally, it stops (the function is total) after at most \<open>timeout / 100 ms + 2\<close>
  queries, and not before the timeout has elapsed on the clock. When the first \<open>k\<close>
  polls do not report completion, each ending no later than the deadline, and the next
  poll reports completion, the wait returns without error in the state that poll left.
  A poll that the transport answers reports completion exactly when the reply is the
  digit \<open>1\<close> between two runs, possibly empty, of the whitespace characters U+0009 to
  U+000D, U+001C to U+0020, U+0085 and U+00A0.
  Transactions wait with the default timeout of 10 s; the poll interval is 100 ms.
\<close>

theorem readiness_wait:
  "(SCPI s
      \<and> (\<forall>t. fault (device (adapter s) (Ask (VStr ''*OPC?'') # t)) = None
              \<and> strip (reply_text (device (adapter s) (Ask (VStr ''*OPC?'') # t))) \<noteq> ''1'')
     \<longrightarrow> (\<exists>s'. wait_until_ready timeout s = (Inl TimeoutError, s')
              \<and> clock (adapter s) + timeout < clock (adapter s')
              \<and> length (trace (adapter s')) \<le> length (trace (adapter s)) + timeout div 100 + 2))
   \<and> ((\<forall>i < k. (\<exists>c. fst (complete (after_polls i s)) = Inr c \<and> c \<noteq> Some True)
              \<and> clock (adapter (snd (complete (after_polls i s)))) \<le> clock (adapter s) + timeout)
       \<and> fst (complete (after_polls k s)) = Inr (Some True)
     \<longrightarrow> wait_until_ready timeout s = (Inr (), snd (complete (after_polls k s))))
   \<and> (SCPI s \<and> fault (device (adapter s) (Ask (VStr ''*OPC?'') # trace (adapter s))) = None
     \<longrightarrow> (fst (complete s) = Inr (Some True)) =
           (\<exists>pre post.
               reply_text (device (adapter s) (Ask (VStr ''*OPC?'') # trace (adapter s)))
                 = pre @ ''1'' @ post
               \<and> of_char ` (set pre \<union> set post)
                   \<subseteq> {9, 10, 11, 12, 13, 28, 29, 30, 31, 32, 133, 160 :: nat}))"
proof -
  have a: "\<exists>s'. wait_until_ready timeout s = (Inl TimeoutError, s')
              \<and> clock (adapter s) + timeout < clock (adapter s')
              \<and> length (trace (adapter s')) \<le> length (trace (adapter s)) + timeout div 100 + 2"
    if "SCPI s" "\<forall>t. fault (device (adapter s) (Ask (VStr ''*OPC?'') # t)) = None
              \<and> strip (reply_text (device (adapter s) (Ask (VStr ''*OPC?'') # t))) \<noteq> ''1''"
    using wait_loop_times_out [OF that, of "clock (adapter s) + timeout"]
    by (auto simp: wait_until_ready_def)
  have b: "wait_until_ready timeout s = (Inr (), snd (complete (after_polls k s)))"
    if "\<forall>i < k. (\<exists>c. fst (complete (after_polls i s)) = Inr c \<and> c \<noteq> Some True)
              \<and> clock (adapter (snd (complete (after_polls i s)))) \<le> clock (adapter s) + timeout"
       "fst (complete (after_polls k s)) = Inr (Some True)"
    using wait_loop_returns [OF that] by (simp add: wait_until_ready_def)
  note c = complete_reports [of s]
  from a b c show ?thesis by blast
qed

theorem readiness_wait_witness:
  "(\<exists>s'. wait_until_ready default_timeout stuck = (Inl TimeoutError, s')
       \<and> clock (adapter stuck) + default_timeout < clock (adapter s'))
   \<and> wait_until_ready default_timeout slow =
       (Inr (), slow\<lparr>adapter := \<lparr>trace = [Ask (VStr ''*OPC?''), Ask (VStr ''*OPC?''),
          Ask (VStr ''*OPC?'')], clock = 203, device = slow_device\<rparr>\<rparr>)
   \<and> reply_text (slow_device [Ask (VStr ''*OPC?''), Ask (VStr ''*OPC?''), Ask (VStr ''*OPC?'')])
       = [CHR 0xA0, CHR ''1'', CHR 0x85, CHR 0x0A]
   \<and> fst (complete (after_polls 2 slow)) = Inr (Some True)
   \<and> fst (complete slow) \<noteq> Inr (Some True)"
proof -
  have 1: "SCPI stuck
      \<and> (\<forall>t. fault (device (adapter stuck) (Ask (VStr ''*OPC?'') # t)) = None
              \<and> strip (reply_text (device (adapter stuck) (Ask (VStr ''*OPC?'') # t))) \<noteq> ''1'')"
    by (simp add: stuck_def bench_def strip_0)
  have 2: "(\<forall>i < 2. (\<exists>c. fst (complete (after_polls i slow)) = Inr c \<and> c \<noteq> Some True)
              \<and> clock (adapter (snd (complete (after_polls i slow))))
                  \<le> clock (adapter slow) + default_timeout)
       \<and> fst (complete (after_polls 2 slow)) = Inr (Some True)"
    by (simp add: less_Suc_eq numeral_2_eq_2 slow_def slow_device_def bench_def sleep_def
        complete_def ask_no_lock_def adapter_text_def perform_def default_timeout_def
        strip_0 strip_ready Let_def)
  have 3: "snd (complete (after_polls 2 slow)) =
       slow\<lparr>adapter := \<lparr>trace = [Ask (VStr ''*OPC?''), Ask (VStr ''*OPC?''),
          Ask (VStr ''*OPC?'')], clock = 203, device = slow_device\<rparr>\<rparr>"
    by (simp add: numeral_2_eq_2 slow_def slow_device_def bench_def sleep_def
        complete_def ask_no_lock_def adapter_text_def perform_def default_timeout_def
        strip_0 strip_ready Let_def)
  have 4: "after_polls 2 slow =
       slow\<lparr>adapter := \<lparr>trace = [Ask (VStr ''*OPC?''), Ask (VStr ''*OPC?'')], clock = 202,
          device = slow_device\<rparr>\<rparr>"
    by (simp add: numeral_2_eq_2 slow_def slow_device_def bench_def sleep_def
        complete_def ask_no_lock_def adapter_text_def perform_def default_timeout_def
        strip_0 strip_ready Let_def)
  have 5: "reply_text (slow_device [Ask (VStr ''*OPC?''), Ask (VStr ''*OPC?''),
         Ask (VStr ''*OPC?'')]) = [CHR 0xA0] @ ''1'' @ [CHR 0x85, CHR 0x0A]"
    "fault (slow_device [Ask (VStr ''*OPC?''), Ask (VStr ''*OPC?''), Ask (VStr ''*OPC?'')])
       = None"
    by (simp_all add: slow_device_def)
  have 6: "SCPI (after_polls 2 slow)
      \<and> fault (device (adapter (after_polls 2 slow))
           (Ask (VStr ''*OPC?'') # trace (adapter (after_polls 2 slow)))) = None"
    unfolding 4 using 5(2) by (simp add: slow_def bench_def)
  have 7: "\<exists>pre post.
      reply_text (device (adapter (after_polls 2 slow))
           (Ask (VStr ''*OPC?'') # trace (adapter (after_polls 2 slow)))) = pre @ ''1'' @ post
      \<and> of_char ` (set pre \<union> set post)
          \<subseteq> {9, 10, 11, 12, 13, 28, 29, 30, 31, 32, 133, 160 :: nat}"
    unfolding 4 by (rule exI [of _ "[CHR 0xA0]"], rule exI [of _ "[CHR 0x85, CHR 0x0A]"])
      (simp add: 5(1) slow_def bench_def)
  have 8: "SCPI slow
      \<and> fault (device (adapter slow) (Ask (VStr ''*OPC?'') # trace (adapter slow))) = None"
    by (simp add: slow_def slow_device_def bench_def)
  have 9: "\<not> (\<exists>pre post.
      reply_text (device (adapter slow) (Ask (VStr ''*OPC?'') # trace (adapter slow)))
         = pre @ ''1'' @ post
      \<and> of_char ` (set pre \<union> set post)
          \<subseteq> {9, 10, 11, 12, 13, 28, 29, 30, 31, 32, 133, 160 :: nat})"
  proof -
    have "''0'' \<noteq> pre @ ''1'' @ post" for pre post :: string
    proof
      assume "''0'' = pre @ ''1'' @ post"
      then have "set ''0'' = set (pre @ ''1'' @ post)" by (rule arg_cong)
      then show False by auto
    qed
    then show ?thesis by (simp add: slow_def slow_device_def bench_def)
  qed
  from readiness_wait [of stuck default_timeout 0] 1
  have A: "\<exists>s'. wait_until_ready default_timeout stuck = (Inl TimeoutError, s')
       \<and> clock (adapter stuck) + default_timeout < clock (adapter s')"
    by blast
  from readiness_wait [of slow default_timeout 2] 2 3
  have B: "wait_until_ready default_timeout slow =
       (Inr (), slow\<lparr>adapter := \<lparr>trace = [Ask (VStr ''*OPC?''), Ask (VStr ''*OPC?''),
          Ask (VStr ''*OPC?'')], clock = 203, device = slow_device\<rparr>\<rparr>)"
    by simp
  from readiness_wait [of "after_polls 2 slow" 0 0] 6 7
  have C: "fst (complete (after_polls 2 slow)) = Inr (Some True)"
    by blast
  from readiness_wait [of slow 0 0] 8 9
  have D: "fst (complete slow) \<noteq> Inr (Some True)"
    by blast
  from 5(1) have E: "reply_text (slow_device [Ask (VStr ''*OPC?''), Ask (VStr ''*OPC?''),
       Ask (VStr ''*OPC?'')]) = [CHR 0xA0, CHR ''1'', CHR 0x85, CHR 0x0A]"
    by simp
  from A B C D E show ?thesis by blast
qed

subsection \<open>Shutdown\<close>

lemma shutdown_fields:
  "SCPI (shutdown s) = SCPI s" "adapter (shutdown s) = adapter s" "locked (shutdown s) = locked s"
  "communication_success (shutdown s) = communication_success s"
  "id_starts_with (shutdown s) = id_starts_with s" "special_names (shutdown s) = special_names s"
  "idict (shutdown s) = idict s" "mro (shutdown s) = mro s" "name (shutdown s) = name s"
  "isShutdown (shutdown s) = True"
  by (simp_all add: shutdown_def)

lemma shutdown_updates:
  "shutdown (s\<lparr>adapter := a\<rparr>) = (shutdown s)\<lparr>adapter := a\<rparr>"
  "shutdown (s\<lparr>locked := b\<rparr>) = (shutdown s)\<lparr>locked := b\<rparr>"
  "shutdown (s\<lparr>communication_success := b\<rparr>) = (shutdown s)\<lparr>communication_success := b\<rparr>"
  by (simp_all add: shutdown_def)

lemma ask_no_lock_shutdown:
  "ask_no_lock c (shutdown s) = apsnd shutdown (ask_no_lock c s)"
  by (simp add: ask_no_lock_def shutdown_fields shutdown_updates split: prod.splits)

lemma complete_shutdown: "complete (shutdown s) = apsnd shutdown (complete s)"
  by (simp add: complete_def ask_no_lock_shutdown shutdown_fields Let_def
      split: prod.splits sum.splits)

lemma wait_loop_shutdown: "wait_loop d (shutdown s) = apsnd shutdown (wait_loop d s)"
proof (induction d s rule: wait_loop.induct)
  case (1 deadline s)
  obtain r s1 where c: "complete s = (r, s1)" by (cases "complete s")
  then have c': "complete (shutdown s) = (r, shutdown s1)" by (simp add: complete_shutdown)
  show ?case
  proof (cases r)
    case (Inl e)
    with c c' show ?thesis
      by (subst wait_loop.simps, subst (2) wait_loop.simps) simp
  next
    case (Inr x)
    show ?thesis
    proof (cases "x = Some True \<or> deadline < clock (adapter s1)")
      case True
      with c c' Inr show ?thesis
        by (subst wait_loop.simps, subst (2) wait_loop.simps) (auto simp: shutdown_fields)
    next
      case False
      with "1.IH" [OF c [symmetric] Inr] have
        "wait_loop deadline (shutdown (s1\<lparr>adapter := sleep 100 (adapter s1)\<rparr>))
           = apsnd shutdown (wait_loop deadline (s1\<lparr>adapter := sleep 100 (adapter s1)\<rparr>))"
        by simp
      with c c' Inr False show ?thesis
        by (subst wait_loop.simps, subst (2) wait_loop.simps)
           (simp add: shutdown_fields shutdown_updates)
    qed
  qed
qed


lemma flush_loop_shutdown_1:
  assumes "flush_loop e s = Some y"
  shows "flush_loop e (shutdown s) = Some (apsnd shutdown y)"
proof (rule flush_loop.raw_induct
    [where P = "\<lambda>e s y. flush_loop e (shutdown s) = Some (apsnd shutdown y)", OF _ assms])
  fix loop :: "string list \<Rightarrow> session \<Rightarrow> string list res option" and e s y
  assume IH: "\<And>e s y. loop e s = Some y \<Longrightarrow> flush_loop e (shutdown s) = Some (apsnd shutdown y)"
  assume body: "(case ask_no_lock (VStr ''SYST:ERR?'') s of
      (Inl e, s') \<Rightarrow> Some (Inl e, s')
    | (Inr current_err, s') \<Rightarrow>
        if \<not> startswith current_err ''+0'' then loop (e @ [current_err]) s'
        else Some (Inr e, s')) = Some y"
  obtain r s1 where a: "ask_no_lock (VStr ''SYST:ERR?'') s = (r, s1)"
    by (cases "ask_no_lock (VStr ''SYST:ERR?'') s")
  then have a': "ask_no_lock (VStr ''SYST:ERR?'') (shutdown s) = (r, shutdown s1)"
    by (simp add: ask_no_lock_shutdown)
  show "flush_loop e (shutdown s) = Some (apsnd shutdown y)"
  proof (cases r)
    case (Inl x)
    with body a a' show ?thesis by (subst flush_loop.simps) auto
  next
    case (Inr x)
    show ?thesis
    proof (cases "startswith x ''+0''")
      case True
      with body a a' Inr show ?thesis by (subst flush_loop.simps) auto
    next
      case False
      with body a Inr have "loop (e @ [x]) s1 = Some y" by simp
      from IH [OF this] a' Inr False show ?thesis by (subst flush_loop.simps) simp
    qed
  qed
qed

lemma flush_loop_shutdown_2:
  assumes "flush_loop e t = Some y'"
  shows "\<forall>s. t = shutdown s \<longrightarrow> (\<exists>y. flush_loop e s = Some y \<and> y' = apsnd shutdown y)"
proof (rule flush_loop.raw_induct
    [where P = "\<lambda>e t y'. \<forall>s. t = shutdown s
                  \<longrightarrow> (\<exists>y. flush_loop e s = Some y \<and> y' = apsnd shutdown y)", OF _ assms])
  fix loop :: "string list \<Rightarrow> session \<Rightarrow> string list res option" and e t y'
  assume IH: "\<And>e t y'. loop e t = Some y' \<Longrightarrow>
      \<forall>s. t = shutdown s \<longrightarrow> (\<exists>y. flush_loop e s = Some y \<and> y' = apsnd shutdown y)"
  assume body: "(case ask_no_lock (VStr ''SYST:ERR?'') t of
      (Inl e, s') \<Rightarrow> Some (Inl e, s')
    | (Inr current_err, s') \<Rightarrow>
        if \<not> startswith current_err ''+0'' then loop (e @ [current_err]) s'
        else Some (Inr e, s')) = Some y'"
  show "\<forall>s. t = shutdown s \<longrightarrow> (\<exists>y. flush_loop e s = Some y \<and> y' = apsnd shutdown y)"
  proof (intro allI impI)
    fix s
    assume t: "t = shutdown s"
    obtain r s1 where a: "ask_no_lock (VStr ''SYST:ERR?'') s = (r, s1)"
      by (cases "ask_no_lock (VStr ''SYST:ERR?'') s")
    then have a': "ask_no_lock (VStr ''SYST:ERR?'') t = (r, shutdown s1)"
      using t by (simp add: ask_no_lock_shutdown)
    show "\<exists>y. flush_loop e s = Some y \<and> y' = apsnd shutdown y"
    proof (cases r)
      case (Inl x)
      with body a a' show ?thesis by (subst flush_loop.simps) auto
    next
      case (Inr x)
      show ?thesis
      proof (cases "startswith x ''+0''")
        case True
        with body a a' Inr show ?thesis by (subst flush_loop.simps) auto
      next
        case False
        with body a' Inr have "loop (e @ [x]) (shutdown s1) = Some y'" by simp
        from IH [OF this] obtain y where
          "flush_loop (e @ [x]) s1 = Some y" "y' = apsnd shutdown y" by blast
        with a Inr False show ?thesis by (subst flush_loop.simps) simp
      qed
    qed
  qed
qed

lemma flush_loop_shutdown:
  "flush_loop e (shutdown s) = map_option (apsnd shutdown) (flush_loop e s)"
proof (cases "flush_loop e s")
  case None
  show ?thesis
  proof (cases "flush_loop e (shutdown s)")
    case None
    with \<open>flush_loop e s = None\<close> show ?thesis by simp
  next
    case (Some y')
    from flush_loop_shutdown_2 [OF this] \<open>flush_loop e s = None\<close> show ?thesis by fastforce
  qed
next
  case (Some y)
  with flush_loop_shutdown_1 [OF this] show ?thesis by simp
qed

lemma bind_res_shutdown:
  assumes "m' = map_option (apsnd shutdown) m"
      and "\<And>x t. f x (shutdown t) = map_option (apsnd shutdown) (g x t)"
  shows "bind_res m' f = map_option (apsnd shutdown) (bind_res m g)"
  using assms by (auto simp: bind_res_def split: option.splits sum.splits)

lemma wait_until_ready_shutdown:
  "wait_until_ready d (shutdown s) = apsnd shutdown (wait_until_ready d s)"
  by (simp add: wait_until_ready_def wait_loop_shutdown shutdown_fields)

lemma flush_errors_shutdown:
  "flush_errors (shutdown s) = map_option (apsnd shutdown) (flush_errors s)"
  unfolding flush_errors_def
  by (auto simp: shutdown_fields wait_until_ready_shutdown flush_loop_shutdown
      intro!: bind_res_shutdown)

lemma check_errors_shutdown:
  "check_errors (shutdown s) = map_option (apsnd shutdown) (check_errors s)"
  unfolding check_errors_def
  by (auto simp: flush_errors_shutdown intro!: bind_res_shutdown)

lemma lift_shutdown:
  "lift_text ev (shutdown s) = map_option (apsnd shutdown) (lift_text ev s)"
  "lift_seq ev (shutdown s) = map_option (apsnd shutdown) (lift_seq ev s)"
  "lift_write c (shutdown s) = map_option (apsnd shutdown) (lift_write c s)"
  by (simp_all add: lift_text_def lift_seq_def lift_write_def shutdown_fields shutdown_updates
      split: prod.splits)

lemma with_lock_shutdown:
  assumes "\<And>t. body (shutdown t) = map_option (apsnd shutdown) (body t)"
  shows "with_lock body (shutdown s) = map_option (apsnd shutdown) (with_lock body s)"
proof -
  have "body ((shutdown s)\<lparr>locked := True\<rparr>)
          = map_option (apsnd shutdown) (body (s\<lparr>locked := True\<rparr>))"
    using assms [of "s\<lparr>locked := True\<rparr>"] by (simp add: shutdown_updates)
  then show ?thesis
    by (cases "body (s\<lparr>locked := True\<rparr>)")
       (auto simp: with_lock_def shutdown_fields shutdown_updates)
qed

lemma ask_shutdown:
  "ask c chk (shutdown s) = map_option (apsnd shutdown) (ask c chk s)"
  unfolding ask_def
  by (rule with_lock_shutdown)
     (auto simp: wait_until_ready_shutdown lift_shutdown check_errors_shutdown
       intro!: bind_res_shutdown)

lemma write_shutdown:
  "write_m c (shutdown s) = map_option (apsnd shutdown) (write_m c s)"
  unfolding write_m_def
  by (rule with_lock_shutdown)
     (auto simp: wait_until_ready_shutdown lift_shutdown check_errors_shutdown
       intro!: bind_res_shutdown)

lemma read_shutdown:
  "read (shutdown s) = map_option (apsnd shutdown) (read s)"
  unfolding read_def
  by (rule with_lock_shutdown)
     (auto simp: wait_until_ready_shutdown lift_shutdown check_errors_shutdown
       intro!: bind_res_shutdown)

lemma values_shutdown:
  "values_m c kw (shutdown s) = map_option (apsnd shutdown) (values_m c kw s)"
  unfolding values_m_def
  by (rule with_lock_shutdown)
     (auto simp: wait_until_ready_shutdown lift_shutdown check_errors_shutdown
       intro!: bind_res_shutdown)

lemma binary_values_shutdown:
  "binary_values c hb dt (shutdown s) = map_option (apsnd shutdown) (binary_values c hb dt s)"
  unfolding binary_values_def
  by (rule with_lock_shutdown)
     (auto simp: wait_until_ready_shutdown lift_shutdown check_errors_shutdown
       intro!: bind_res_shutdown)


lemma keeps_flagD: "keeps_flag f \<Longrightarrow> f s = Some (r, s') \<Longrightarrow> isShutdown s' = isShutdown s"
  unfolding keeps_flag_def by blast

lemma keeps_flag_total:
  "(\<And>s. isShutdown (snd (g s)) = isShutdown s) \<Longrightarrow> keeps_flag (\<lambda>s. Some (g s))"
  unfolding keeps_flag_def by (metis option.inject snd_conv)

lemma keeps_flag_return: "keeps_flag (\<lambda>s. Some (r, s))"
  unfolding keeps_flag_def by simp

lemma keeps_flag_if:
  "keeps_flag f \<Longrightarrow> keeps_flag g \<Longrightarrow> keeps_flag (\<lambda>s. if P s then f s else g s)"
  unfolding keeps_flag_def by simp

lemma keeps_flag_bind:
  assumes "keeps_flag m" and "\<And>x. keeps_flag (f x)"
  shows "keeps_flag (\<lambda>s. bind_res (m s) f)"
  unfolding keeps_flag_def
proof (intro allI impI)
  fix s r s'
  assume b: "bind_res (m s) f = Some (r, s')"
  show "isShutdown s' = isShutdown s"
  proof (cases "m s")
    case None
    with b show ?thesis by (simp add: bind_res_def)
  next
    case (Some y)
    obtain q t where y: "y = (q, t)" by (cases y)
    from keeps_flagD [OF assms(1)] Some y have t: "isShutdown t = isShutdown s" by simp
    show ?thesis
    proof (cases q)
      case (Inl e)
      with b Some y t show ?thesis by (simp add: bind_res_def)
    next
      case (Inr x)
      with b Some y have "f x t = Some (r, s')" by (simp add: bind_res_def)
      from keeps_flagD [OF assms(2) this] t show ?thesis by simp
    qed
  qed
qed

lemma keeps_flag_with_lock:
  assumes "keeps_flag body"
  shows "keeps_flag (with_lock body)"
  unfolding keeps_flag_def
proof (intro allI impI)
  fix s r s'
  assume w: "with_lock body s = Some (r, s')"
  then obtain t where t: "body (s\<lparr>locked := True\<rparr>) = Some (r, t)" "s' = t\<lparr>locked := False\<rparr>"
    by (auto simp: with_lock_def split: if_splits)
  from keeps_flagD [OF assms t(1)] t(2) show "isShutdown s' = isShutdown s" by simp
qed

lemma ask_no_lock_flag: "isShutdown (snd (ask_no_lock c s)) = isShutdown s"
  by (simp add: ask_no_lock_def split: prod.splits)

lemma complete_flag: "isShutdown (snd (complete s)) = isShutdown s"
  using ask_no_lock_flag [of "VStr ''*OPC?''" s]
  by (auto simp: complete_def Let_def split: prod.splits sum.splits)

lemma wait_loop_flag: "isShutdown (snd (wait_loop d s)) = isShutdown s"
proof (induction d s rule: wait_loop.induct)
  case (1 deadline s)
  obtain r s1 where c: "complete s = (r, s1)" by (cases "complete s")
  with complete_flag [of s] have f: "isShutdown s1 = isShutdown s" by simp
  show ?case
  proof (cases r)
    case (Inl e)
    with c f show ?thesis by (subst wait_loop.simps) simp
  next
    case (Inr x)
    show ?thesis
    proof (cases "x = Some True \<or> deadline < clock (adapter s1)")
      case True
      with c f Inr show ?thesis by (subst wait_loop.simps) auto
    next
      case False
      with "1.IH" [OF c [symmetric] Inr] have
        "isShutdown (snd (wait_loop deadline (s1\<lparr>adapter := sleep 100 (adapter s1)\<rparr>)))
           = isShutdown s1" by simp
      with c f Inr False show ?thesis by (subst wait_loop.simps) simp
    qed
  qed
qed

lemma keeps_flag_wait: "keeps_flag (\<lambda>s. Some (wait_until_ready d s))"
  by (rule keeps_flag_total) (simp add: wait_until_ready_def wait_loop_flag)

lemma flush_loop_flag:
  assumes "flush_loop e s = Some y"
  shows "isShutdown (snd y) = isShutdown s"
proof (rule flush_loop.raw_induct
    [where P = "\<lambda>e s y. isShutdown (snd y) = isShutdown s", OF _ assms])
  fix loop :: "string list \<Rightarrow> session \<Rightarrow> string list res option" and e s y
  assume IH: "\<And>e s y. loop e s = Some y \<Longrightarrow> isShutdown (snd y) = isShutdown s"
  assume body: "(case ask_no_lock (VStr ''SYST:ERR?'') s of
      (Inl e, s') \<Rightarrow> Some (Inl e, s')
    | (Inr current_err, s') \<Rightarrow>
        if \<not> startswith current_err ''+0'' then loop (e @ [current_err]) s'
        else Some (Inr e, s')) = Some y"
  obtain r s1 where a: "ask_no_lock (VStr ''SYST:ERR?'') s = (r, s1)"
    by (cases "ask_no_lock (VStr ''SYST:ERR?'') s")
  with ask_no_lock_flag [of "VStr ''SYST:ERR?''" s] have f: "isShutdown s1 = isShutdown s" by simp
  show "isShutdown (snd y) = isShutdown s"
  proof (cases r)
    case (Inl x)
    with body a f show ?thesis by auto
  next
    case (Inr x)
    show ?thesis
    proof (cases "startswith x ''+0''")
      case True
      with body a f Inr show ?thesis by auto
    next
      case False
      with body a Inr have "loop (e @ [x]) s1 = Some y" by simp
      from IH [OF this] f show ?thesis by simp
    qed
  qed
qed

lemma keeps_flag_flush_loop: "keeps_flag (flush_loop e)"
  unfolding keeps_flag_def using flush_loop_flag by fastforce

lemma keeps_flag_flush_errors: "keeps_flag flush_errors"
proof -
  have "keeps_flag (\<lambda>s. if SCPI s
      then bind_res (Some (wait_until_ready default_timeout s)) (\<lambda>_ s'. flush_loop [] s')
      else Some (Inl NotImplementedError, s))"
    by (intro keeps_flag_if keeps_flag_bind keeps_flag_wait keeps_flag_flush_loop
        keeps_flag_return)
  then show ?thesis by (simp add: flush_errors_def [abs_def])
qed

lemma keeps_flag_check_errors: "keeps_flag check_errors"
proof -
  have "keeps_flag (\<lambda>s. bind_res (flush_errors s)
       (\<lambda>errors s'. if errors \<noteq> [] then Some (Inl (RuntimeError (error_message (hd errors))), s')
                     else Some (Inr (), s')))"
    by (intro keeps_flag_bind keeps_flag_flush_errors keeps_flag_if keeps_flag_return)
  then show ?thesis by (simp add: check_errors_def [abs_def])
qed

lemma keeps_flag_lift:
  "keeps_flag (lift_text ev)" "keeps_flag (lift_seq ev)" "keeps_flag (lift_write c)"
  unfolding keeps_flag_def
  by (auto simp: lift_text_def lift_seq_def lift_write_def split: prod.splits)

lemmas keeps_flag_intros = keeps_flag_with_lock keeps_flag_bind keeps_flag_if keeps_flag_wait
  keeps_flag_lift keeps_flag_check_errors keeps_flag_return

lemma keeps_flag_ask: "keeps_flag (ask c chk)"
  unfolding ask_def by (intro keeps_flag_intros)

lemma keeps_flag_write: "keeps_flag (write_m c)"
  unfolding write_m_def by (intro keeps_flag_intros)

lemma keeps_flag_read: "keeps_flag read"
  unfolding read_def by (intro keeps_flag_intros)

lemma keeps_flag_values: "keeps_flag (values_m c kw)"
  unfolding values_m_def by (intro keeps_flag_intros)

lemma keeps_flag_binary_values: "keeps_flag (binary_values c hb dt)"
  unfolding binary_values_def by (intro keeps_flag_intros)

lemma keeps_flag_get_id: "keeps_flag (get_id chk)"
  unfolding get_id_def [abs_def] by (intro keeps_flag_intros keeps_flag_ask)

lemma keeps_flag_options: "keeps_flag options"
  unfolding options_def [abs_def] by (intro keeps_flag_intros keeps_flag_ask)

lemma keeps_flag_clear_reset: "keeps_flag clear" "keeps_flag reset"
  unfolding clear_def [abs_def] reset_def [abs_def]
  by (intro keeps_flag_intros keeps_flag_write)+

lemma keeps_flag_status: "keeps_flag status"
proof -
  have 1: "keeps_flag (call_get_id kws)" for kws
    unfolding call_get_id_def [abs_def] by (intro keeps_flag_intros keeps_flag_get_id)
  have 2: "keeps_flag (\<lambda>s'. if startswith x (id_starts_with s')
                        then Some (Inr ''ok: ON'', s'\<lparr>communication_success := True\<rparr>)
                        else Some (Inr ''warning: Cannot communicate with device'', s'))" for x
    unfolding keeps_flag_def by auto
  show ?thesis
    unfolding status_def [abs_def] by (intro keeps_flag_intros 1 2)
qed

lemma keeps_flag_fget: "keeps_flag (fget B gc vs mv gp cp kw)"
proof -
  have 1: "keeps_flag (\<lambda>s'. case toks of
                      [tok] \<Rightarrow>
                        (case call gp [tok] of
                           Inl e \<Rightarrow> Some (Inl e, s')
                         | Inr v \<Rightarrow>
                             if \<not> truthy mv then Some (Inr v, s')
                             else Some (map_decode B vs v, s'))
                    | _ \<Rightarrow> Some (call gp [VList toks], s'))" for toks
    unfolding keeps_flag_def by (auto split: list.splits sum.splits)
  show ?thesis
    unfolding fget_def [abs_def]
    by (cases "call cp [as_val gc]")
       (auto intro!: keeps_flag_intros keeps_flag_values 1)
qed

lemma keeps_flag_fset: "keeps_flag (fset B sc va vs mv sp cp v)"
  unfolding keeps_flag_def fset_def
  by (auto split: if_splits sum.splits dest: keeps_flagD [OF keeps_flag_write])

lemma keeps_flag_property:
  "keeps_flag (property_get B c pname)" "keeps_flag (property_set B c pname v)"
  unfolding keeps_flag_def property_get_def property_set_def Let_def
  by (auto dest: keeps_flagD [OF keeps_flag_fget] keeps_flagD [OF keeps_flag_fset])

lemma run_op_flag:
  assumes "run_op B x s = Some s'"
  shows "isShutdown s' = (isShutdown s \<or> x = Op_shutdown)"
proof (cases x)
  case Op_shutdown
  with assms show ?thesis by (auto simp: shutdown_def)
qed (use assms in \<open>auto dest: keeps_flagD [OF keeps_flag_ask] keeps_flagD [OF keeps_flag_write]
      keeps_flagD [OF keeps_flag_read] keeps_flagD [OF keeps_flag_values]
      keeps_flagD [OF keeps_flag_binary_values] keeps_flagD [OF keeps_flag_check_errors]
      keeps_flagD [OF keeps_flag_status] keeps_flagD [OF keeps_flag_get_id]
      keeps_flagD [OF keeps_flag_options] keeps_flagD [OF keeps_flag_clear_reset(1)]
      keeps_flagD [OF keeps_flag_clear_reset(2)] keeps_flagD [OF keeps_flag_property(1)]
      keeps_flagD [OF keeps_flag_property(2)]\<close>)

lemma run_ops_flag:
  "run_ops B xs s = Some s' \<Longrightarrow> isShutdown s \<Longrightarrow> isShutdown s'"
proof (induction xs arbitrary: s)
  case Nil
  then show ?case by simp
next
  case (Cons x xs)
  then obtain s1 where s1: "run_op B x s = Some s1" "run_ops B xs s1 = Some s'"
    by (auto split: option.splits)
  from run_op_flag [OF s1(1)] Cons.prems(2) have "isShutdown s1" by simp
  with Cons.IH [OF s1(2)] show ?case by simp
qed


text \<open>
  Claim C10. \<open>shutdown\<close>, which is all that leaving a \<open>with\<close> block does, sets
  \<open>isShutdown\<close> and changes no other field. No sequence of operations of the class
  takes the flag back to false. Each of \<open>ask\<close>, \<open>write\<close>, \<open>read\<close>, \<open>values\<close> and
  \<open>binary_values\<close> on a session that has been shut down does what it does on the
  session before the shutdown: it returns or raises the same, never returns exactly
  when it would not have returned, and leaves the same session but for the flag; no
  transaction looks at the flag.
\<close>

theorem shutdown_is_permissive:
  "shutdown s = s\<lparr>isShutdown := True\<rparr>
   \<and> exit_block s = shutdown s
   \<and> (isShutdown s \<and> run_ops B xs s = Some s' \<longrightarrow> isShutdown s')
   \<and> ask c chk (shutdown s) = map_option (apsnd shutdown) (ask c chk s)
   \<and> write_m c (shutdown s) = map_option (apsnd shutdown) (write_m c s)
   \<and> read (shutdown s) = map_option (apsnd shutdown) (read s)
   \<and> values_m c kw (shutdown s) = map_option (apsnd shutdown) (values_m c kw s)
   \<and> binary_values c hb dt (shutdown s)
       = map_option (apsnd shutdown) (binary_values c hb dt s)"
proof -
  have 1: "shutdown s = s\<lparr>isShutdown := True\<rparr>" by (simp add: shutdown_def)
  have 2: "exit_block s = shutdown s" by (simp add: exit_block_def)
  have 3: "isShutdown s \<and> run_ops B xs s = Some s' \<longrightarrow> isShutdown s'"
    using run_ops_flag [of B xs s s'] by blast
  from 1 2 3 ask_shutdown [of c chk s] write_shutdown [of c s] read_shutdown [of s]
    values_shutdown [of c kw s] binary_values_shutdown [of c hb dt s]
  show ?thesis by blast
qed

lemma bench_ask:
  "ask (VStr ''*IDN?'') True bench =
     Some (Inr ''ACME,42'', bench\<lparr>adapter := bench_adapter\<lparr>trace := [Ask (VStr ''SYST:ERR?''),
       Ask (VStr ''*OPC?''), Ask (VStr ''*IDN?''), Ask (VStr ''*OPC?'')], clock := 4\<rparr>\<rparr>)"
  by (simp add: bench_defs transaction_defs)

theorem shutdown_is_permissive_witness:
  "isShutdown (shutdown bench)
   \<and> ask (VStr ''*IDN?'') True (shutdown bench) =
       Some (Inr ''ACME,42'', shutdown (bench\<lparr>adapter := bench_adapter\<lparr>trace :=
         [Ask (VStr ''SYST:ERR?''), Ask (VStr ''*OPC?''), Ask (VStr ''*IDN?''),
          Ask (VStr ''*OPC?'')], clock := 4\<rparr>\<rparr>))
   \<and> run_ops plain_builtins [Op_ask (VStr ''*IDN?'') True] (shutdown bench) =
       Some (shutdown (bench\<lparr>adapter := bench_adapter\<lparr>trace :=
         [Ask (VStr ''SYST:ERR?''), Ask (VStr ''*OPC?''), Ask (VStr ''*IDN?''),
          Ask (VStr ''*OPC?'')], clock := 4\<rparr>\<rparr>))
   \<and> isShutdown (shutdown (bench\<lparr>adapter := bench_adapter\<lparr>trace :=
         [Ask (VStr ''SYST:ERR?''), Ask (VStr ''*OPC?''), Ask (VStr ''*IDN?''),
          Ask (VStr ''*OPC?'')], clock := 4\<rparr>\<rparr>))"
proof -
  let ?b = "bench\<lparr>adapter := bench_adapter\<lparr>trace :=
         [Ask (VStr ''SYST:ERR?''), Ask (VStr ''*OPC?''), Ask (VStr ''*IDN?''),
          Ask (VStr ''*OPC?'')], clock := 4\<rparr>\<rparr>"
  have 1: "isShutdown (shutdown bench)" by (simp add: shutdown_def)
  have 2: "ask (VStr ''*IDN?'') True (shutdown bench) = Some (Inr ''ACME,42'', shutdown ?b)"
  proof -
    from shutdown_is_permissive [of bench plain_builtins "[]" bench "VStr ''*IDN?''" True]
    have "ask (VStr ''*IDN?'') True (shutdown bench)
        = map_option (apsnd shutdown) (ask (VStr ''*IDN?'') True bench)" by blast
    then show ?thesis by (simp add: bench_ask)
  qed
  then have 3: "run_ops plain_builtins [Op_ask (VStr ''*IDN?'') True] (shutdown bench)
      = Some (shutdown ?b)" by simp
  from shutdown_is_permissive [of "shutdown bench" plain_builtins
      "[Op_ask (VStr ''*IDN?'') True]" "shutdown ?b"] 1 3
  have 4: "isShutdown (shutdown ?b)" by blast
  from 1 2 3 4 show ?thesis by blast
qed

end
